theory Spec2Isabelle
  imports Complex_Main "HOL-Library.Word" "HOL-Library.Sublist"
begin

unbundle bit_operations_syntax

section \<open>PCM codec (utils/audio: decode, decodeAudioData)\<close>

text \<open>
  Numbers of the program that are times, weights or sample values are modelled as
  rationals: every finite float is one, and the arithmetic is taken exact. For the
  samples this is no idealisation: a 16-bit integer divided by 32768 is exactly
  representable in a Float32Array.

  \<open>decode\<close> is the host's \<open>atob\<close> followed by a byte copy; a chunk is modelled by the
  bytes its base64 payload stands for (see \<open>AudioChunk\<close> below).
\<close>

type_synonym byte = "8 word"

datatype js_error = RangeError | TypeError | NotSupportedError

text \<open>A JavaScript number stored into a Float32Array: a value or NaN.\<close>

datatype number = NaN | Num rat

record AudioBuffer =
  numberOfChannels :: nat
  sampleRate :: nat
  channelData :: "number list list"

text \<open>
  The audio context of the host. What the model keeps of it are the limits of
  \<open>createBuffer\<close>: the largest channel count and the range of sample rates that the
  host supports. Every conformant host supports at least 32 channels and the rates from
  8000 to 96000.
\<close>

record AudioContext =
  maxChannels :: nat
  minSampleRate :: nat
  maxSampleRate :: nat

definition supported :: "AudioContext \<Rightarrow> nat \<Rightarrow> nat \<Rightarrow> bool" where
  "supported ctx numChannels rate =
     (0 < numChannels \<and> numChannels \<le> maxChannels ctx
      \<and> 0 < rate \<and> minSampleRate ctx \<le> rate \<and> rate \<le> maxSampleRate ctx)"

text \<open>
  \<open>ctx.createBuffer(numChannels, frameCount, sampleRate)\<close>. The length argument is
  converted to an unsigned 32-bit integer: the fractional part is dropped and the
  result is taken modulo \<open>2^32\<close>. The host raises NotSupportedError when the channel
  count, the length or the rate is zero or outside what it supports; otherwise it
  allocates \<open>numChannels\<close> zero-filled channels of that length.
\<close>

definition createBuffer :: "AudioContext \<Rightarrow> nat \<Rightarrow> rat \<Rightarrow> nat \<Rightarrow> js_error + AudioBuffer" where
  "createBuffer ctx numChannels len rate =
     (let frames = nat \<lfloor>len\<rfloor> mod 2 ^ 32
      in if supported ctx numChannels rate \<and> 0 < frames
         then Inr \<lparr>numberOfChannels = numChannels, sampleRate = rate,
                   channelData = replicate numChannels (replicate frames (Num 0))\<rparr>
         else Inl NotSupportedError)"

text \<open>\<open>audioBuffer.duration\<close>: frames divided by the sample rate.\<close>

definition duration :: "AudioBuffer \<Rightarrow> rat" where
  "duration b =
     (case channelData b of [] \<Rightarrow> 0
      | c # _ \<Rightarrow> of_nat (length c) / of_nat (sampleRate b))"

text \<open>
  \<open>new Int16Array(data.buffer)\<close>: the same bytes read two at a time, low byte first
  (the byte order of every platform the page runs on).
\<close>

definition int16_le :: "byte \<Rightarrow> byte \<Rightarrow> 16 word" where
  "int16_le lo hi = push_bit 8 (ucast hi) OR ucast lo"

fun int16_view :: "byte list \<Rightarrow> 16 word list" where
  "int16_view (lo # hi # rest) = int16_le lo hi # int16_view rest"
| "int16_view _ = []"

text \<open>Reading a typed array outside its range gives \<open>undefined\<close>.\<close>

definition typed_get :: "'a list \<Rightarrow> nat \<Rightarrow> 'a option" where
  "typed_get xs k = (if k < length xs then Some (xs ! k) else None)"

text \<open>\<open>dataInt16[k] / 32768.0\<close>; \<open>undefined / 32768.0\<close> is NaN.\<close>

definition normalise :: "16 word option \<Rightarrow> number" where
  "normalise v = (case v of None \<Rightarrow> NaN | Some w \<Rightarrow> Num (of_int (sint w) / 32768))"

text \<open>
  The inner loop \<open>for (i = 0; i < frameCount; i++) channelData[i] = ...\<close>. The bound
  \<open>frameCount\<close> is the unrounded quotient, so \<open>i\<close> runs over \<open>0 .. \<lceil>frameCount\<rceil> - 1\<close>;
  a write past the end of the Float32Array is ignored, which is what list update does.
\<close>

definition fillChannel :: "16 word list \<Rightarrow> nat \<Rightarrow> nat \<Rightarrow> rat \<Rightarrow> number list \<Rightarrow> number list" where
  "fillChannel dataInt16 numChannels channel frameCount cd =
     fold (\<lambda>i cd. cd[i := normalise (typed_get dataInt16 (i * numChannels + channel))])
       [0..<nat \<lceil>frameCount\<rceil>] cd"

text \<open>
  \<open>decodeAudioData(data, ctx, sampleRate, numChannels)\<close>. The buffer is created first,
  so an input shorter than one frame fails there; the Int16Array constructor then
  raises RangeError on a buffer of odd byte length. With zero channels the quotient
  \<open>data.length / 2 / numChannels\<close> is not finite and converts to the length 0.
\<close>

definition decodeAudioData ::
  "byte list \<Rightarrow> AudioContext \<Rightarrow> nat \<Rightarrow> nat \<Rightarrow> js_error + AudioBuffer" where
  "decodeAudioData data ctx rate numChannels =
     (let frameCount =
            (if numChannels = 0 then 0
             else (of_nat (length data) / 2 / of_nat numChannels :: rat))
      in case createBuffer ctx numChannels frameCount rate of
           Inl e \<Rightarrow> Inl e
         | Inr buffer \<Rightarrow>
             if odd (length data) then Inl RangeError
             else
               let dataInt16 = int16_view data
               in Inr (buffer\<lparr>channelData :=
                    fold (\<lambda>channel chans.
                            chans[channel :=
                              fillChannel dataInt16 numChannels channel frameCount (chans ! channel)])
                      [0..<numChannels] (channelData buffer)\<rparr>))"

text \<open>A host with exactly the limits that every conformant host supports.\<close>

definition conformant_host :: AudioContext where
  "conformant_host = \<lparr>maxChannels = 32, minSampleRate = 8000, maxSampleRate = 96000\<rparr>"

text \<open>
  The reading of the specification: the little-endian signed 16-bit value at position
  \<open>k\<close> of the interleaved input.
\<close>

definition le_int16_at :: "byte list \<Rightarrow> nat \<Rightarrow> int" where
  "le_int16_at data k =
     sint (push_bit 8 (ucast (data ! (2 * k + 1))) OR ucast (data ! (2 * k)) :: 16 word)"

section \<open>Data model (types.ts)\<close>

text \<open>The field \<open>text\<close> of a prompt is written \<open>ptext\<close>.\<close>

record WeightedPrompt =
  ptext :: string
  weight :: rat

text \<open>A \<open>Prompt\<close> carries the two wire fields and the metadata of the prompt grid.\<close>

record Prompt = WeightedPrompt +
  promptId :: string
  emotion :: string
  japaneseEmotion :: string
  cc :: nat
  color :: string

datatype PlaybackState = Stopped | Playing | Loading | Paused

record MusicStanzaConfig =
  bpm :: "rat option"
  mute_bass :: "bool option"
  mute_drums :: "bool option"
  scale :: "string option"
  temperature :: "rat option"

record MusicStanza =
  prompts :: "WeightedPrompt list"
  seconds :: rat
  config :: "MusicStanzaConfig option"

record MusicPlan =
  title :: string
  stanzas :: "MusicStanza list"


section \<open>Session protocol\<close>

text \<open>The configuration object sent to the session (\<open>bpm\<close>, \<open>temperature\<close>, \<open>scale\<close>,
  \<open>muteBass\<close>, \<open>muteDrums\<close>; a field that was not set is \<open>None\<close>).\<close>

record GenerationConfig =
  bpm_w :: "rat option"
  temperature_w :: "rat option"
  scale_w :: "string option"
  muteBass :: "bool option"
  muteDrums :: "bool option"

datatype session_cmd =
    SetWeightedPrompts "WeightedPrompt list"
  | SetMusicGenerationConfig GenerationConfig
  | SessionPlay
  | SessionPause
  | SessionStop

text \<open>An audio chunk: \<open>data\<close> is the byte sequence that the base64 payload decodes to,
  \<open>None\<close> when the field is absent. The empty payload is the empty string.\<close>

record AudioChunk =
  data :: "byte list option"

text \<open>A server message: \<open>setupComplete\<close>, \<open>filteredPrompt.text\<close> and
  \<open>serverContent.audioChunks\<close>.\<close>

record LiveMusicServerMessage =
  setupComplete :: bool
  filteredPrompt :: "string option"
  audioChunks :: "AudioChunk list option"


section \<open>Plan renderer (LongMusicGenerator)\<close>

text \<open>What a run of the renderer does to the outside, in order.\<close>

datatype render_detail = Message string | GenerationFailed

datatype render_effect =
    Progress nat nat MusicStanza
  | RenderError render_detail
  | Send session_cmd
  | Sleep rat

datatype thrown = Busy | Rejected string

record LongMusicGenerator =
  audioData :: "byte list list"
  gsession :: "nat option"
  isGenerating :: bool
  trace :: "render_effect list"

text \<open>
  The surroundings of one run: whether the connection attempt resolves to a handle or is
  rejected with a message; whether the command logged at position \<open>k\<close> of the trace is
  rejected by the session; and the server messages that \<open>onmessage\<close> handles while the
  run is suspended in its waits.
\<close>

record render_env =
  connect_result :: "string + nat"
  rejection :: "nat \<Rightarrow> string option"
  inbox :: "LiveMusicServerMessage list"

type_synonym render_step = "LongMusicGenerator \<Rightarrow> string option \<times> LongMusicGenerator"

definition skip :: render_step where
  "skip g = (None, g)"

definition emit :: "render_effect \<Rightarrow> render_step" where
  "emit e g = (None, g\<lparr>trace := trace g @ [e]\<rparr>)"

text \<open>\<open>await this.session.cmd(...)\<close>: the command is issued, and the wait either resumes
  or throws the session's rejection.\<close>

definition send :: "render_env \<Rightarrow> session_cmd \<Rightarrow> render_step" where
  "send env c g = (rejection env (length (trace g)), g\<lparr>trace := trace g @ [Send c]\<rparr>)"

definition sleep :: "rat \<Rightarrow> render_step" where
  "sleep ms = emit (Sleep ms)"

text \<open>Statements in sequence; a throw skips the rest.\<close>

fun seq :: "render_step list \<Rightarrow> render_step" where
  "seq [] g = (None, g)"
| "seq (f # fs) g = (case f g of (Some e, g') \<Rightarrow> (Some e, g') | (None, g') \<Rightarrow> seq fs g')"

text \<open>The wire form of the stanza's prompts.\<close>

definition wire :: "'a WeightedPrompt_scheme \<Rightarrow> WeightedPrompt" where
  "wire p = \<lparr>ptext = ptext p, weight = weight p\<rparr>"

text \<open>The configuration built from \<open>stanza.config\<close>: a field is copied when it is
  defined; \<open>scale\<close> when it is truthy, that is a non-empty string.\<close>

definition translate_config :: "MusicStanzaConfig \<Rightarrow> GenerationConfig" where
  "translate_config c =
     \<lparr>bpm_w = bpm c, temperature_w = temperature c,
      scale_w = (case scale c of None \<Rightarrow> None | Some sc \<Rightarrow> if sc = [] then None else Some sc),
      muteBass = mute_bass c, muteDrums = mute_drums c\<rparr>"

text \<open>\<open>stanza.config?.bpm\<close> and \<open>stanza.config?.scale\<close>.\<close>

definition config_bpm :: "MusicStanza \<Rightarrow> rat option" where
  "config_bpm st = (case config st of None \<Rightarrow> None | Some c \<Rightarrow> bpm c)"

definition config_scale :: "MusicStanza \<Rightarrow> string option" where
  "config_scale st = (case config st of None \<Rightarrow> None | Some c \<Rightarrow> scale c)"

text \<open>The body of the loop over the stanzas, for the index \<open>i\<close>.\<close>

definition stanza_body :: "render_env \<Rightarrow> MusicPlan \<Rightarrow> nat \<Rightarrow> render_step" where
  "stanza_body env musicPlan i =
     (let stanza = stanzas musicPlan ! i
      in seq
        [emit (Progress (i + 1) (length (stanzas musicPlan)) stanza),
         send env (SetWeightedPrompts (map wire (prompts stanza))),
         (case config stanza of
            None \<Rightarrow> skip
          | Some c \<Rightarrow> send env (SetMusicGenerationConfig (translate_config c))),
         (if i = 0 then send env SessionPlay else skip),
         sleep (seconds stanza * 1000),
         (if i < length (stanzas musicPlan) - 1 then
            (let nextStanza = stanzas musicPlan ! (i + 1)
             in if config_bpm nextStanza \<noteq> config_bpm stanza
                   \<or> config_scale nextStanza \<noteq> config_scale stanza
                then seq [send env SessionPause, sleep 100, send env SessionPlay]
                else skip)
          else skip)])"

function stanza_loop :: "render_env \<Rightarrow> MusicPlan \<Rightarrow> nat \<Rightarrow> render_step" where
  "stanza_loop env musicPlan i g =
     (if i < length (stanzas musicPlan) then
        (case stanza_body env musicPlan i g of
           (Some e, g') \<Rightarrow> (Some e, g')
         | (None, g') \<Rightarrow> stanza_loop env musicPlan (i + 1) g')
      else (None, g))"
  by pat_completeness auto
termination
  by (relation "measure (\<lambda>(env, musicPlan, i, g). length (stanzas musicPlan) - i)") auto

text \<open>\<open>processAudioChunks\<close> of the renderer: every chunk of the batch with a truthy
  \<open>data\<close> is decoded and pushed.\<close>

fun gen_processAudioChunks :: "AudioChunk list \<Rightarrow> LongMusicGenerator \<Rightarrow> LongMusicGenerator" where
  "gen_processAudioChunks [] g = g"
| "gen_processAudioChunks (chunk # rest) g =
     gen_processAudioChunks rest
       (case data chunk of
          None \<Rightarrow> g
        | Some audioBytes \<Rightarrow>
            if audioBytes = [] then g else g\<lparr>audioData := audioData g @ [audioBytes]\<rparr>)"

definition gen_onmessage :: "LiveMusicServerMessage \<Rightarrow> LongMusicGenerator \<Rightarrow> LongMusicGenerator" where
  "gen_onmessage e g =
     (case audioChunks e of None \<Rightarrow> g | Some cs \<Rightarrow> gen_processAudioChunks cs g)"

definition receive :: "LiveMusicServerMessage list \<Rightarrow> LongMusicGenerator \<Rightarrow> LongMusicGenerator" where
  "receive msgs g = fold gen_onmessage msgs g"

text \<open>DataView writes. All offsets used below lie inside the buffer.\<close>

definition write_at :: "nat \<Rightarrow> byte list \<Rightarrow> byte list \<Rightarrow> byte list" where
  "write_at offset bs buf = take offset buf @ bs @ drop (offset + length bs) buf"

definition writeString :: "nat \<Rightarrow> string \<Rightarrow> byte list \<Rightarrow> byte list" where
  "writeString offset str buf = write_at offset (map (\<lambda>ch. of_nat (of_char ch)) str) buf"

definition setUint16 :: "nat \<Rightarrow> nat \<Rightarrow> byte list \<Rightarrow> byte list" where
  "setUint16 offset v buf = write_at offset [of_nat v, of_nat (v div 2 ^ 8)] buf"

definition setUint32 :: "nat \<Rightarrow> nat \<Rightarrow> byte list \<Rightarrow> byte list" where
  "setUint32 offset v buf =
     write_at offset
       [of_nat v, of_nat (v div 2 ^ 8), of_nat (v div 2 ^ 16), of_nat (v div 2 ^ 24)] buf"

definition createWavFile :: "byte list \<Rightarrow> nat \<Rightarrow> nat \<Rightarrow> byte list" where
  "createWavFile pcmData rate numChannels =
     (let len = length pcmData;
          buffer = replicate (44 + len) (0 :: byte)
      in (write_at 44 pcmData
          \<circ> setUint32 40 len
          \<circ> writeString 36 ''data''
          \<circ> setUint16 34 16
          \<circ> setUint16 32 (numChannels * 2)
          \<circ> setUint32 28 (rate * numChannels * 2)
          \<circ> setUint32 24 rate
          \<circ> setUint16 22 numChannels
          \<circ> setUint16 20 1
          \<circ> setUint32 16 16
          \<circ> writeString 12 ''fmt ''
          \<circ> writeString 8 ''WAVE''
          \<circ> setUint32 4 (36 + len)
          \<circ> writeString 0 ''RIFF'') buffer)"

text \<open>The \<open>catch\<close> block and the \<open>finally\<close> block of \<open>generateMusic\<close>.\<close>

definition gen_catch :: "string \<Rightarrow> LongMusicGenerator \<Rightarrow> LongMusicGenerator" where
  "gen_catch msg g =
     g\<lparr>isGenerating := False,
       trace := trace g @ [RenderError (if msg = [] then GenerationFailed else Message msg)]\<rparr>"

definition gen_finally :: "LongMusicGenerator \<Rightarrow> LongMusicGenerator" where
  "gen_finally g =
     (case gsession g of
        None \<Rightarrow> g
      | Some h \<Rightarrow> g\<lparr>trace := trace g @ [Send SessionStop], gsession := None\<rparr>)"

definition generateMusic ::
  "render_env \<Rightarrow> MusicPlan \<Rightarrow> LongMusicGenerator \<Rightarrow> (thrown + byte list) \<times> LongMusicGenerator" where
  "generateMusic env musicPlan g =
     (if isGenerating g then (Inl Busy, g)
      else
        let g1 = g\<lparr>isGenerating := True, audioData := []\<rparr>
        in case connect_result env of
             Inl msg \<Rightarrow> (Inl (Rejected msg), gen_finally (gen_catch msg g1))
           | Inr h \<Rightarrow>
               (case seq [stanza_loop env musicPlan 0, send env SessionStop, sleep 500]
                       (g1\<lparr>gsession := Some h\<rparr>) of
                  (Some msg, g2) \<Rightarrow>
                    (Inl (Rejected msg), gen_finally (gen_catch msg (receive (inbox env) g2)))
                | (None, g2) \<Rightarrow>
                    let g3 = receive (inbox env) g2;
                        combined = concat (audioData g3);
                        wavBlob = createWavFile combined 48000 2
                    in (Inr wavBlob, gen_finally (g3\<lparr>isGenerating := False\<rparr>))))"

definition cancel :: "LongMusicGenerator \<Rightarrow> LongMusicGenerator" where
  "cancel g =
     (case gsession g of
        None \<Rightarrow> g
      | Some h \<Rightarrow> g\<lparr>trace := trace g @ [Send SessionStop], gsession := None\<rparr>)
     \<lparr>isGenerating := False, audioData := []\<rparr>"

text \<open>
  The readings of the specification, for comparison with the code: the blocks of
  effects of the stanzas in plan order, the PCM bytes received, and the fields of a
  header read back as little-endian numbers.
\<close>

definition stanza_block :: "nat \<Rightarrow> nat \<Rightarrow> MusicStanza \<Rightarrow> MusicStanza option \<Rightarrow> render_effect list" where
  "stanza_block tot i stanza nxt =
     [Progress (i + 1) tot stanza, Send (SetWeightedPrompts (map wire (prompts stanza)))]
     @ (case config stanza of
          None \<Rightarrow> []
        | Some c \<Rightarrow> [Send (SetMusicGenerationConfig (translate_config c))])
     @ (if i = 0 then [Send SessionPlay] else [])
     @ [Sleep (seconds stanza * 1000)]
     @ (case nxt of
          None \<Rightarrow> []
        | Some nextStanza \<Rightarrow>
            if config_bpm nextStanza \<noteq> config_bpm stanza
               \<or> config_scale nextStanza \<noteq> config_scale stanza
            then [Send SessionPause, Sleep 100, Send SessionPlay]
            else [])"

fun stanza_blocks :: "nat \<Rightarrow> nat \<Rightarrow> MusicStanza list \<Rightarrow> render_effect list" where
  "stanza_blocks tot i [] = []"
| "stanza_blocks tot i (stanza # rest) =
     stanza_block tot i stanza (case rest of [] \<Rightarrow> None | nextStanza # _ \<Rightarrow> Some nextStanza)
     @ stanza_blocks tot (i + 1) rest"

definition payload :: "AudioChunk \<Rightarrow> byte list" where
  "payload c = (case data c of None \<Rightarrow> [] | Some bs \<Rightarrow> bs)"

definition received_pcm :: "LiveMusicServerMessage list \<Rightarrow> byte list" where
  "received_pcm msgs =
     concat (map (\<lambda>e. case audioChunks e of
                        None \<Rightarrow> []
                      | Some cs \<Rightarrow> concat (map payload cs))
                 msgs)"

definition u16_at :: "byte list \<Rightarrow> nat \<Rightarrow> nat" where
  "u16_at bs off = unat (bs ! off) + 2 ^ 8 * unat (bs ! (off + 1))"

definition u32_at :: "byte list \<Rightarrow> nat \<Rightarrow> nat" where
  "u32_at bs off =
     unat (bs ! off) + 2 ^ 8 * unat (bs ! (off + 1)) + 2 ^ 16 * unat (bs ! (off + 2))
     + 2 ^ 24 * unat (bs ! (off + 3))"


text \<open>Concrete inputs on which the theorems about the renderer are exercised: the
  two-stanza plan of the specification's scenario, an idle and a busy renderer, and
  surroundings in which the session accepts every command and delivers two messages.\<close>

definition calm_stanza :: MusicStanza where
  "calm_stanza = \<lparr>prompts = [\<lparr>ptext = ''calm'', weight = 1\<rparr>], seconds = 5, config = None\<rparr>"

definition tense_stanza :: MusicStanza where
  "tense_stanza =
     \<lparr>prompts = [\<lparr>ptext = ''tense'', weight = 1\<rparr>], seconds = 5,
      config = Some \<lparr>bpm = Some 140, mute_bass = None, mute_drums = None, scale = None,
                      temperature = None\<rparr>\<rparr>"

definition two_stanza_plan :: MusicPlan where
  "two_stanza_plan = \<lparr>title = ''two'', stanzas = [calm_stanza, tense_stanza]\<rparr>"

definition idle_renderer :: LongMusicGenerator where
  "idle_renderer = \<lparr>audioData = [], gsession = None, isGenerating = False, trace = []\<rparr>"

definition busy_renderer :: LongMusicGenerator where
  "busy_renderer =
     \<lparr>audioData = [[1, 2]], gsession = Some 1, isGenerating = True,
      trace = [Send SessionPlay]\<rparr>"

definition accepting_env :: render_env where
  "accepting_env =
     \<lparr>connect_result = Inr 1, rejection = (\<lambda>k. None),
      inbox =
        [\<lparr>setupComplete = False, filteredPrompt = None,
          audioChunks = Some [\<lparr>data = Some [1, 2, 3, 4]\<rparr>, \<lparr>data = None\<rparr>]\<rparr>,
         \<lparr>setupComplete = False, filteredPrompt = None, audioChunks = None\<rparr>,
         \<lparr>setupComplete = False, filteredPrompt = None,
          audioChunks = Some [\<lparr>data = Some [5, 6]\<rparr>]\<rparr>]\<rparr>"

section \<open>Live playback engine (LiveMusicHelper)\<close>

text \<open>
  The payload of an \<open>error\<close> event. The texts themselves are fixed messages; what
  varies is kept: the message taken from an error, or the code and reason of a close
  event.
\<close>

datatype error_detail =
    NoActivePrompt
  | Detail string
  | SocketError "string option"
  | SocketClosed "(nat \<times> string) option"
  | ConnectFailed string
  | PlayFailed

datatype helper_event =
    PlaybackStateChanged PlaybackState
  | FilteredPromptEvent string
  | ErrorEvent error_detail

text \<open>
  What the engine does to the outside, in order: events dispatched, connection
  attempts, commands on a session handle, calls on the audio context and on a gain node
  (identified by a number), sources started on a node at a time, and timers armed.
\<close>

datatype live_effect =
    Dispatch helper_event
  | SdkConnect nat
  | ToSession nat session_cmd
  | Resume
  | ConnectDestination nat
  | ConnectExtra nat nat
  | SetValueAtTime nat rat rat
  | LinearRampToValueAtTime nat rat rat
  | SourceStart nat AudioBuffer rat
  | SetTimeout rat

text \<open>
  The fields of the class; \<open>audioContext\<close> is the host's context, created by the
  constructor. The map \<open>prompts\<close> is the list of its entries in insertion
  order (field \<open>promptMap\<close>; \<open>prompts\<close> names the list of a stanza). \<open>connects\<close> and
  \<open>nodes\<close> count the connection attempts and the gain nodes created so far and supply
  fresh identities; \<open>timers\<close> counts the armed one-shot timers that have not fired yet;
  \<open>effects\<close> is the log of effects.
\<close>

record LiveMusicHelper =
  audioContext :: AudioContext
  session :: "nat option"
  sessionPromise :: "nat option"
  connectionError :: bool
  filteredPrompts :: "string set"
  nextStartTime :: rat
  playbackState :: PlaybackState
  promptMap :: "(string \<times> Prompt) list"
  outputNode :: nat
  extraDestination :: "nat option"
  connects :: nat
  nodes :: nat
  timers :: nat
  effects :: "live_effect list"

definition bufferTime :: rat where
  "bufferTime = 2"

text \<open>The state the constructor leaves, on a host with the limits of
  \<open>conformant_host\<close>.\<close>

definition initial :: LiveMusicHelper where
  "initial =
     \<lparr>audioContext = conformant_host,
      session = None, sessionPromise = None, connectionError = True, filteredPrompts = {},
      nextStartTime = 0, playbackState = Stopped, promptMap = [], outputNode = 0,
      extraDestination = None, connects = 0, nodes = 1, timers = 0, effects = []\<rparr>"

definition emit_live :: "live_effect list \<Rightarrow> LiveMusicHelper \<Rightarrow> LiveMusicHelper" where
  "emit_live es s = s\<lparr>effects := effects s @ es\<rparr>"

definition setPlaybackState :: "PlaybackState \<Rightarrow> LiveMusicHelper \<Rightarrow> LiveMusicHelper" where
  "setPlaybackState st s =
     emit_live [Dispatch (PlaybackStateChanged st)] (s\<lparr>playbackState := st\<rparr>)"

text \<open>
  \<open>getSession\<close> with \<open>connect\<close>. A connection attempt is identified by its number. The
  SDK's \<open>connect\<close> hands back a promise; \<open>thr\<close> is the message of an error it throws
  instead, which the \<open>catch\<close> block of \<open>connect\<close> reports before rethrowing. How the
  promise settles is known to the caller that awaits it.
\<close>

definition getSession :: "string option \<Rightarrow> LiveMusicHelper \<Rightarrow> nat \<times> LiveMusicHelper" where
  "getSession thr s =
     (case sessionPromise s of
        Some p \<Rightarrow> (p, s)
      | None \<Rightarrow>
          let p = connects s;
              s1 = emit_live [SdkConnect p] (s\<lparr>connects := connects s + 1\<rparr>);
              s2 = (case thr of
                      None \<Rightarrow> s1
                    | Some msg \<Rightarrow>
                        emit_live [Dispatch (ErrorEvent (ConnectFailed msg))]
                          (s1\<lparr>connectionError := True\<rparr>))
          in (p, s2\<lparr>sessionPromise := Some p\<rparr>))"

text \<open>
  Lines 119 to 134 of \<open>processAudioChunks\<close>: what is done with a decoded buffer at the
  clock reading \<open>now\<close>. The source is connected to the current output node.
\<close>

definition schedule :: "rat \<Rightarrow> AudioBuffer \<Rightarrow> LiveMusicHelper \<Rightarrow> LiveMusicHelper" where
  "schedule now audioBuffer s =
     (let s1 = (if nextStartTime s = 0
                then emit_live [SetTimeout (bufferTime * 1000)]
                       (s\<lparr>nextStartTime := now + bufferTime, timers := timers s + 1\<rparr>)
                else s)
      in if nextStartTime s1 < now
         then (setPlaybackState Loading s1)\<lparr>nextStartTime := 0\<rparr>
         else (emit_live [SourceStart (outputNode s1) audioBuffer (nextStartTime s1)] s1)
                \<lparr>nextStartTime := nextStartTime s1 + duration audioBuffer\<rparr>)"

text \<open>
  \<open>processAudioChunks\<close>. Only \<open>audioChunks[0]\<close> is read: on an empty batch that is a
  TypeError, and a chunk without \<open>data\<close> makes \<open>atob\<close> fail.
\<close>

datatype chunk_error = Js js_error | InvalidCharacterError

definition processAudioChunks ::
  "rat \<Rightarrow> AudioChunk list \<Rightarrow> LiveMusicHelper \<Rightarrow> chunk_error + LiveMusicHelper" where
  "processAudioChunks now cs s =
     (if playbackState s = Paused \<or> playbackState s = Stopped then Inr s
      else
        case cs of
          [] \<Rightarrow> Inl (Js TypeError)
        | c # _ \<Rightarrow>
            (case data c of
               None \<Rightarrow> Inl InvalidCharacterError
             | Some bs \<Rightarrow>
                 (case decodeAudioData bs (audioContext s) 48000 2 of
                    Inl e \<Rightarrow> Inl (Js e)
                  | Inr audioBuffer \<Rightarrow> Inr (schedule now audioBuffer s))))"

text \<open>The \<open>onmessage\<close> callback; a failure of \<open>processAudioChunks\<close> rejects the
  callback's promise and leaves the state as it was before the chunks.\<close>

definition onmessage ::
  "rat \<Rightarrow> LiveMusicServerMessage \<Rightarrow> LiveMusicHelper \<Rightarrow> chunk_error option \<times> LiveMusicHelper" where
  "onmessage now e s =
     (let s1 = (if setupComplete e then s\<lparr>connectionError := False\<rparr> else s);
          s2 = (case filteredPrompt e of
                  None \<Rightarrow> s1
                | Some t \<Rightarrow>
                    emit_live [Dispatch (FilteredPromptEvent t)]
                      (s1\<lparr>filteredPrompts := insert t (filteredPrompts s1)\<rparr>))
      in case audioChunks e of
           None \<Rightarrow> (None, s2)
         | Some cs \<Rightarrow>
             (case processAudioChunks now cs s2 of
                Inl err \<Rightarrow> (Some err, s2)
              | Inr s3 \<Rightarrow> (None, s3)))"

definition activePrompts :: "LiveMusicHelper \<Rightarrow> Prompt list" where
  "activePrompts s =
     filter (\<lambda>p. ptext p \<notin> filteredPrompts s \<and> weight p \<noteq> 0) (map snd (promptMap s))"

definition pause :: "rat \<Rightarrow> LiveMusicHelper \<Rightarrow> LiveMusicHelper" where
  "pause now s =
     (let s1 = (case session s of None \<Rightarrow> s | Some h \<Rightarrow> emit_live [ToSession h SessionPause] s);
          s2 = setPlaybackState Paused s1;
          s3 = emit_live
                 [SetValueAtTime (outputNode s2) 1 now,
                  LinearRampToValueAtTime (outputNode s2) 0 (now + 1 / 10)] s2
      in s3\<lparr>nextStartTime := 0, outputNode := nodes s3, nodes := nodes s3 + 1\<rparr>)"

definition stop :: "rat \<Rightarrow> LiveMusicHelper \<Rightarrow> LiveMusicHelper" where
  "stop now s =
     (let s1 = (case session s of None \<Rightarrow> s | Some h \<Rightarrow> emit_live [ToSession h SessionStop] s);
          s2 = setPlaybackState Stopped s1;
          s3 = emit_live
                 [SetValueAtTime (outputNode s2) 0 now,
                  LinearRampToValueAtTime (outputNode s2) 1 (now + 1 / 10)] s2
      in s3\<lparr>nextStartTime := 0, session := None, sessionPromise := None\<rparr>)"

text \<open>
  The operation that \<open>setWeightedPrompts\<close> hands to \<open>throttle\<close>; the wrapper
  (utils/throttle) decides when it runs. \<open>reject\<close> is the message with which the
  session rejects the prompt list, if it does.
\<close>

definition setWeightedPrompts ::
  "rat \<Rightarrow> string option \<Rightarrow> (string \<times> Prompt) list \<Rightarrow> LiveMusicHelper \<Rightarrow> LiveMusicHelper" where
  "setWeightedPrompts now reject ps s =
     (let s1 = s\<lparr>promptMap := ps\<rparr>
      in if activePrompts s1 = []
         then pause now (emit_live [Dispatch (ErrorEvent NoActivePrompt)] s1)
         else
           case session s1 of
             None \<Rightarrow> s1
           | Some h \<Rightarrow>
               let s2 = emit_live [ToSession h (SetWeightedPrompts (map wire (activePrompts s1)))] s1
               in (case reject of
                     None \<Rightarrow> s2
                   | Some msg \<Rightarrow> pause now (emit_live [Dispatch (ErrorEvent (Detail msg))] s2)))"

text \<open>
  \<open>play\<close> in two parts. \<open>play_enter\<close> runs up to the first wait, on the connection;
  \<open>play_complete\<close> is the rest, run when the awaited promise has settled: \<open>settle\<close> is the
  rejection message or the session handle. The waits on the prompt update and on
  \<open>resume\<close> are taken to return at once. The \<open>catch\<close> block is \<open>play_catch\<close>.
\<close>

definition play_enter :: "string option \<Rightarrow> LiveMusicHelper \<Rightarrow> nat \<times> LiveMusicHelper" where
  "play_enter thr s = getSession thr (setPlaybackState Loading s)"

definition play_catch :: "string \<Rightarrow> LiveMusicHelper \<Rightarrow> LiveMusicHelper" where
  "play_catch msg s =
     emit_live [Dispatch (ErrorEvent (if msg = [] then PlayFailed else Detail msg))]
       (setPlaybackState Stopped s)"

definition play_complete ::
  "rat \<Rightarrow> string + nat \<Rightarrow> string option \<Rightarrow> LiveMusicHelper \<Rightarrow> LiveMusicHelper" where
  "play_complete now settle reject s =
     (case settle of
        Inl msg \<Rightarrow> play_catch msg s
      | Inr h \<Rightarrow>
          let s1 = s\<lparr>session := Some h\<rparr>;
              s2 = setWeightedPrompts now reject (promptMap s1) s1;
              s3 = emit_live [Resume] s2
          in case session s3 of
               None \<Rightarrow> play_catch ''TypeError'' s3
             | Some h' \<Rightarrow>
                 emit_live
                   ([ToSession h' SessionPlay, ConnectDestination (outputNode s3)]
                    @ (case extraDestination s3 of
                         None \<Rightarrow> []
                       | Some d \<Rightarrow> [ConnectExtra (outputNode s3) d])
                    @ [SetValueAtTime (outputNode s3) 0 now,
                       LinearRampToValueAtTime (outputNode s3) 1 (now + 1 / 10)]) s3)"

definition play ::
  "rat \<Rightarrow> string option \<Rightarrow> string + nat \<Rightarrow> string option \<Rightarrow> LiveMusicHelper \<Rightarrow> LiveMusicHelper" where
  "play now thr settle reject s = play_complete now settle reject (snd (play_enter thr s))"

text \<open>The callbacks \<open>onerror\<close> and \<open>onclose\<close>, and the callback of the one-shot timer
  armed by the scheduler.\<close>

definition onerror :: "rat \<Rightarrow> string option \<Rightarrow> LiveMusicHelper \<Rightarrow> LiveMusicHelper" where
  "onerror now msg s =
     emit_live [Dispatch (ErrorEvent (SocketError msg))] (stop now (s\<lparr>connectionError := True\<rparr>))"

definition onclose :: "rat \<Rightarrow> (nat \<times> string) option \<Rightarrow> LiveMusicHelper \<Rightarrow> LiveMusicHelper" where
  "onclose now ev s =
     emit_live [Dispatch (ErrorEvent (SocketClosed ev))] (stop now (s\<lparr>connectionError := True\<rparr>))"

definition timer_fires :: "LiveMusicHelper \<Rightarrow> LiveMusicHelper" where
  "timer_fires s =
     (if timers s = 0 then s else setPlaybackState Playing (s\<lparr>timers := timers s - 1\<rparr>))"

text \<open>
  Everything that can happen to the engine, as one input each. \<open>playPause\<close> starts a
  \<open>play\<close> whose second part arrives as \<open>PlayComplete\<close>, like that of \<open>play\<close> itself.
\<close>

datatype input =
    CallSetWeightedPrompts "(string \<times> Prompt) list" "string option"
  | PlayEnter "string option"
  | PlayComplete "string + nat" "string option"
  | CallPause
  | CallStop
  | CallPlayPause "string option"
  | ServerMessage LiveMusicServerMessage
  | OnError "string option"
  | OnClose "(nat \<times> string) option"
  | TimerFires

definition playPause :: "rat \<Rightarrow> string option \<Rightarrow> LiveMusicHelper \<Rightarrow> LiveMusicHelper" where
  "playPause now thr s =
     (case playbackState s of
        Playing \<Rightarrow> pause now s
      | Paused \<Rightarrow> snd (play_enter thr s)
      | Stopped \<Rightarrow> snd (play_enter thr s)
      | Loading \<Rightarrow> stop now s)"

fun step :: "rat \<Rightarrow> input \<Rightarrow> LiveMusicHelper \<Rightarrow> LiveMusicHelper" where
  "step now (CallSetWeightedPrompts ps reject) s = setWeightedPrompts now reject ps s"
| "step now (PlayEnter thr) s = snd (play_enter thr s)"
| "step now (PlayComplete settle reject) s = play_complete now settle reject s"
| "step now CallPause s = pause now s"
| "step now CallStop s = stop now s"
| "step now (CallPlayPause thr) s = playPause now thr s"
| "step now (ServerMessage e) s = snd (onmessage now e s)"
| "step now (OnError msg) s = onerror now msg s"
| "step now (OnClose ev) s = onclose now ev s"
| "step now TimerFires s = timer_fires s"

fun run :: "(rat \<times> input) list \<Rightarrow> LiveMusicHelper \<Rightarrow> LiveMusicHelper" where
  "run [] s = s"
| "run ((now, i) # rest) s = run rest (step now i s)"

text \<open>Decoded buffers handed to the scheduler one after the other, each with the clock
  reading at which it is handled; and batches handled one after the other.\<close>

fun schedule_all :: "(rat \<times> AudioBuffer) list \<Rightarrow> LiveMusicHelper \<Rightarrow> LiveMusicHelper" where
  "schedule_all [] s = s"
| "schedule_all ((now, b) # rest) s = schedule_all rest (schedule now b s)"


text \<open>The sources started so far, in order: buffer and start time.\<close>

fun start_of :: "live_effect \<Rightarrow> (AudioBuffer \<times> rat) list" where
  "start_of (SourceStart n b t) = [(b, t)]"
| "start_of _ = []"

definition started :: "LiveMusicHelper \<Rightarrow> (AudioBuffer \<times> rat) list" where
  "started s = concat (map start_of (effects s))"



text \<open>Concrete inputs on which the theorems about the engine are exercised.\<close>

definition silence :: "nat \<Rightarrow> AudioBuffer" where
  "silence frames =
     \<lparr>numberOfChannels = 2, sampleRate = 48000,
      channelData = [replicate frames (Num 0), replicate frames (Num 0)]\<rparr>"

definition joy :: Prompt where
  "joy =
     \<lparr>ptext = ''joyful'', weight = 1, promptId = ''prompt-0'', emotion = ''joy'',
      japaneseEmotion = ''yorokobi'', cc = 0, color = ''#ffdd28''\<rparr>"

definition one_frame :: AudioChunk where
  "one_frame = \<lparr>data = Some [0, 64, 0, 192]\<rparr>"

definition chunk_message :: "AudioChunk list \<Rightarrow> LiveMusicServerMessage" where
  "chunk_message cs = \<lparr>setupComplete = False, filteredPrompt = None, audioChunks = Some cs\<rparr>"

definition stale_timer_run :: "(rat \<times> input) list" where
  "stale_timer_run =
     [(0, CallSetWeightedPrompts [(''prompt-0'', joy)] None),
      (0, PlayEnter None),
      (1, PlayComplete (Inr 7) None),
      (2, ServerMessage (chunk_message [one_frame])),
      (3, CallStop),
      (4, TimerFires)]"

text \<open>Engines in the states paused, playing with the cursor at 12 and loading with an
  unset cursor, each with the session handle 7; three buffers with their clock readings;
  the buffer that the chunk of one frame decodes to.\<close>

definition paused_engine :: LiveMusicHelper where
  "paused_engine = initial\<lparr>playbackState := Paused, session := Some 7, sessionPromise := Some 0,
     connects := 1\<rparr>"

definition playing_engine :: LiveMusicHelper where
  "playing_engine = initial\<lparr>playbackState := Playing, session := Some 7, sessionPromise := Some 0,
     connects := 1, nextStartTime := 12, promptMap := [(''prompt-0'', joy)]\<rparr>"

definition loading_engine :: LiveMusicHelper where
  "loading_engine = initial\<lparr>playbackState := Loading, session := Some 7, sessionPromise := Some 0,
     connects := 1, promptMap := [(''prompt-0'', joy)]\<rparr>"

definition three_chunks :: "(rat \<times> AudioBuffer) list" where
  "three_chunks = [(0, silence 48000), (1, silence 24000), (3, silence 48000)]"

definition one_frame_buffer :: AudioBuffer where
  "one_frame_buffer =
     \<lparr>numberOfChannels = 2, sampleRate = 48000, channelData = [[Num (1 / 2)], [Num (- 1 / 2)]]\<rparr>"

section \<open>Auxiliary notions for the proofs\<close>

text \<open>The 44 bytes that the writes of \<open>createWavFile\<close> leave in front of the samples.\<close>

definition wav_header :: "nat \<Rightarrow> nat \<Rightarrow> nat \<Rightarrow> byte list" where
  "wav_header len rate numChannels =
     [0x52, 0x49, 0x46, 0x46,
      of_nat (36 + len), of_nat ((36 + len) div 2 ^ 8), of_nat ((36 + len) div 2 ^ 16),
      of_nat ((36 + len) div 2 ^ 24),
      0x57, 0x41, 0x56, 0x45,
      0x66, 0x6d, 0x74, 0x20,
      of_nat 16, of_nat (16 div 2 ^ 8), of_nat (16 div 2 ^ 16), of_nat (16 div 2 ^ 24),
      of_nat 1, of_nat (1 div 2 ^ 8),
      of_nat numChannels, of_nat (numChannels div 2 ^ 8),
      of_nat rate, of_nat (rate div 2 ^ 8), of_nat (rate div 2 ^ 16), of_nat (rate div 2 ^ 24),
      of_nat (rate * numChannels * 2), of_nat (rate * numChannels * 2 div 2 ^ 8),
      of_nat (rate * numChannels * 2 div 2 ^ 16), of_nat (rate * numChannels * 2 div 2 ^ 24),
      of_nat (numChannels * 2), of_nat (numChannels * 2 div 2 ^ 8),
      of_nat 16, of_nat (16 div 2 ^ 8),
      0x64, 0x61, 0x74, 0x61,
      of_nat len, of_nat (len div 2 ^ 8), of_nat (len div 2 ^ 16), of_nat (len div 2 ^ 24)]"

text \<open>A step of the renderer that succeeds and appends exactly the given effects, and
  a step that, whatever its outcome, only appends to the trace.\<close>

definition appends :: "render_step \<Rightarrow> render_effect list \<Rightarrow> bool" where
  "appends f es = (\<forall>g. f g = (None, g\<lparr>trace := trace g @ es\<rparr>))"

definition extends :: "render_step \<Rightarrow> bool" where
  "extends f = (\<forall>g r g'. f g = (r, g') \<longrightarrow> (\<exists>es. g' = g\<lparr>trace := trace g @ es\<rparr>))"


section \<open>Properties of the PCM codec\<close>

lemma length_int16_view: "length (int16_view bytes) = length bytes div 2"
  by (induction bytes rule: int16_view.induct) simp_all

lemma nth_int16_view:
  "k < length bytes div 2 \<Longrightarrow>
     int16_view bytes ! k = int16_le (bytes ! (2 * k)) (bytes ! (2 * k + 1))"
proof (induction bytes arbitrary: k rule: int16_view.induct)
  case (1 lo hi rest)
  then show ?case by (cases k) simp_all
qed simp_all

lemma length_fold_update:
  "length (fold (\<lambda>j ys. ys[j := g j (ys ! j)]) js xs) = length xs"
  by (induction js arbitrary: xs) simp_all

lemma fold_update_untouched:
  "k \<le> i \<Longrightarrow> fold (\<lambda>j ys. ys[j := g j (ys ! j)]) [0..<k] xs ! i = xs ! i"
  by (induction k) simp_all

lemma fold_update_nth:
  "i < k \<Longrightarrow> i < length xs \<Longrightarrow>
     fold (\<lambda>j ys. ys[j := g j (ys ! j)]) [0..<k] xs ! i = g i (xs ! i)"
proof (induction k)
  case 0
  then show ?case by simp
next
  case (Suc k)
  show ?case
  proof (cases "i = k")
    case True
    then show ?thesis
      using Suc.prems by (simp add: length_fold_update fold_update_untouched)
  next
    case False
    with Suc show ?thesis by simp
  qed
qed

lemma floor_frames:
  "nat \<lfloor>(of_nat m :: rat) / 2 / of_nat n\<rfloor> = m div 2 div n"
proof -
  have "(of_nat m :: rat) / 2 / of_nat n = of_nat m / of_nat (2 * n)" by simp
  then show ?thesis by (simp only: floor_divide_of_nat_eq nat_int div_mult2_eq)
qed

lemma length_fillChannel: "length (fillChannel d n c fc cd) = length cd"
  unfolding fillChannel_def
  using length_fold_update [where g = "\<lambda>i _. normalise (typed_get d (i * n + c))"]
  by simp
lemma ceil_bound: 
  assumes "i < length cd" and "of_nat (length cd) \<le> (fc::rat)"
  shows "i < nat \<lceil>fc\<rceil>"
proof -
  from assms have "(of_nat i :: rat) < fc" 
    by (meson of_nat_less_iff less_le_trans)
  then show ?thesis by linarith
qed

lemma sample_range:
  "- 1 \<le> (of_int (sint (w :: 16 word)) :: rat) / 32768 \<and>
   (of_int (sint w) :: rat) / 32768 < 1"
proof -
  have "- 32768 \<le> sint w" and "sint w < 32768"
    using sint_ge [of w] sint_lt [of w] by simp_all
  then have "(- 32768 :: rat) \<le> of_int (sint w)" and "(of_int (sint w) :: rat) < 32768"
    by linarith+
  then show ?thesis by simp
qed

lemma nth_fillChannel:
  assumes "i < length cd" and "of_nat (length cd) \<le> fc"
  shows "fillChannel d n c fc cd ! i = normalise (typed_get d (i * n + c))"
proof -
  from assms have "i < nat \<lceil>fc\<rceil>" by (rule ceil_bound)
  then show ?thesis
    unfolding fillChannel_def
    using fold_update_nth [where g = "\<lambda>i _. normalise (typed_get d (i * n + c))"
        and k = "nat \<lceil>fc\<rceil>" and i = i and xs = cd] assms(1)
    by simp
qed

lemma int16_le_at: 
  "k < length bytes div 2 \<Longrightarrow> sint (int16_view bytes ! k) = le_int16_at bytes k"
  by (simp add: nth_int16_view int16_le_def le_int16_at_def)

lemma interleaved_in_range:
  assumes "0 < n" and "c < n" and "i < m div n"
  shows "i * n + c < (m::nat)"
proof -
  from assms have "Suc i \<le> m div n" by simp
  then have "Suc i * n \<le> m div n * n" by (rule mult_le_mono1)
  also have "\<dots> \<le> m" by simp
  finally show ?thesis using assms(2) by simp
qed

lemma decodeAudioData_shape:
  assumes "even (length bytes)" and "2 * numChannels \<le> length bytes"
    and "length bytes < 2 ^ 32" and "supported ctx numChannels rate"
  shows "\<exists>buf. decodeAudioData bytes ctx rate numChannels = Inr buf
           \<and> numberOfChannels buf = numChannels \<and> sampleRate buf = rate
           \<and> length (channelData buf) = numChannels
           \<and> (\<forall>c < numChannels.
                 length (channelData buf ! c) = length bytes div 2 div numChannels
                 \<and> (\<forall>i < length bytes div 2 div numChannels.
                       channelData buf ! c ! i =
                         Num (of_int (le_int16_at bytes (i * numChannels + c)) / 32768)
                       \<and> - 1 \<le> (of_int (le_int16_at bytes (i * numChannels + c)) :: rat) / 32768
                       \<and> (of_int (le_int16_at bytes (i * numChannels + c)) :: rat) / 32768 < 1))"
proof -
  define fc where "fc = (of_nat (length bytes) / 2 / of_nat numChannels :: rat)"
  define frames where "frames = length bytes div 2 div numChannels"
  define d16 where "d16 = int16_view bytes"
  define zeros where "zeros = replicate numChannels (replicate frames (Num 0))"
  define chans where "chans =
    fold (\<lambda>channel chans.
            chans[channel := fillChannel d16 numChannels channel fc (chans ! channel)])
      [0..<numChannels] zeros"
  have fl: "nat \<lfloor>fc\<rfloor> = frames"
    unfolding fc_def frames_def by (rule floor_frames)
  have nonneg: "0 \<le> fc"
    unfolding fc_def by simp
  have le: "of_nat frames \<le> fc"
  proof -
    from nonneg have "0 \<le> \<lfloor>fc\<rfloor>" by simp
    then have "(of_nat (nat \<lfloor>fc\<rfloor>) :: rat) = of_int \<lfloor>fc\<rfloor>" by simp
    also have "\<dots> \<le> fc" by (rule of_int_floor_le)
    finally show ?thesis by (simp only: fl)
  qed
  have fc2: "rat_of_nat (length bytes) / (2 * rat_of_nat numChannels) = fc"
    unfolding fc_def by simp
  have pos: "0 < numChannels"
    using assms(4) by (simp add: supported_def)
  have "numChannels \<le> length bytes div 2"
    using assms(2) by simp
  then have "numChannels div numChannels \<le> length bytes div 2 div numChannels"
    by (rule div_le_mono)
  with pos have one: "0 < frames"
    by (simp add: frames_def)
  have "frames \<le> length bytes"
    unfolding frames_def by (meson div_le_dividend order_trans)
  with assms(3) have wrap: "frames mod 4294967296 = frames"
    by simp
  have dec: "decodeAudioData bytes ctx rate numChannels =
      Inr \<lparr>numberOfChannels = numChannels, sampleRate = rate, channelData = chans\<rparr>"
    using assms(1,4) pos one
    by (simp add: decodeAudioData_def createBuffer_def Let_def fc2 fl wrap chans_def zeros_def
        d16_def)
  have len: "length chans = numChannels"
    unfolding chans_def zeros_def
    using length_fold_update [where g = "\<lambda>channel. fillChannel d16 numChannels channel fc"]
    by simp
  have ch: "chans ! c = fillChannel d16 numChannels c fc (replicate frames (Num 0))"
    if "c < numChannels" for c
    unfolding chans_def
    using fold_update_nth [where g = "\<lambda>channel. fillChannel d16 numChannels channel fc"
        and k = numChannels and i = c and xs = zeros] that
    by (simp add: zeros_def)
  have smp: "chans ! c ! i = Num (of_int (le_int16_at bytes (i * numChannels + c)) / 32768)
      \<and> - 1 \<le> (of_int (le_int16_at bytes (i * numChannels + c)) :: rat) / 32768
      \<and> (of_int (le_int16_at bytes (i * numChannels + c)) :: rat) / 32768 < 1"
    if "c < numChannels" and "i < frames" for c i
  proof -
    have idx: "i * numChannels + c < length bytes div 2"
      using pos that unfolding frames_def by (intro interleaved_in_range)
    have "chans ! c ! i = normalise (typed_get d16 (i * numChannels + c))"
      using that le by (simp add: ch nth_fillChannel)
    also have "\<dots> = Num (of_int (sint (d16 ! (i * numChannels + c))) / 32768)"
      using idx by (simp add: normalise_def typed_get_def d16_def length_int16_view)
    finally have "chans ! c ! i = Num (of_int (le_int16_at bytes (i * numChannels + c)) / 32768)"
      using idx by (simp add: d16_def int16_le_at)
    moreover have "- 1 \<le> (of_int (le_int16_at bytes (i * numChannels + c)) :: rat) / 32768
      \<and> (of_int (le_int16_at bytes (i * numChannels + c)) :: rat) / 32768 < 1"
      unfolding le_int16_at_def by (rule sample_range)
    ultimately show ?thesis by simp
  qed
  have lens: "length (chans ! c) = frames" if "c < numChannels" for c
    using that by (simp add: ch length_fillChannel)
  show ?thesis
    unfolding dec using len lens smp by (simp add: frames_def)
qed

lemma decodeAudioData_short:
  "length bytes < 2 * numChannels \<Longrightarrow>
     decodeAudioData bytes ctx rate numChannels = Inl NotSupportedError"
proof (cases "numChannels = 0")
  case True
  then show ?thesis
    by (simp add: decodeAudioData_def createBuffer_def supported_def)
next
  case False
  assume "length bytes < 2 * numChannels"
  then have "length bytes div 2 div numChannels = 0"
    by (simp add: div_mult2_eq [symmetric])
  then have "nat \<lfloor>(of_nat (length bytes) :: rat) / 2 / of_nat numChannels\<rfloor> = 0"
    by (simp only: floor_frames)
  then have "nat \<lfloor>(of_nat (length bytes) :: rat) / (2 * of_nat numChannels)\<rfloor> = 0"
    by simp
  with False show ?thesis
    by (simp add: decodeAudioData_def createBuffer_def Let_def)
qed

text \<open>
  Claim C3 fails as stated: the empty input and an input of two bytes in stereo have
  even length but hold no whole frame, and \<open>createBuffer\<close> refuses the length 0, so no
  buffer is produced.
\<close>

theorem decodeAudioData_no_frame:
  "even (length ([] :: byte list))
   \<and> decodeAudioData [] conformant_host 48000 2 = Inl NotSupportedError
   \<and> even (length [0, 64 :: byte])
   \<and> decodeAudioData [0, 64] conformant_host 48000 2 = Inl NotSupportedError"
  by (simp add: decodeAudioData_short)

text \<open>
  Claim C3, amended. For a byte input of even length that holds at least one whole
  frame (and fewer than \<open>2^32\<close> bytes), with a channel count \<open>n\<close> and a sample rate that
  the host supports, \<open>decodeAudioData\<close> returns a buffer of \<open>n\<close> channels at that rate;
  every channel holds \<open>\<lfloor>len / 2 / n\<rfloor>\<close> frames (a trailing partial frame is dropped);
  sample \<open>i\<close> of channel \<open>c\<close> is the little-endian signed 16-bit value at interleaved
  position \<open>i * n + c\<close> divided by 32768, and lies in \<open>[-1, 1)\<close>.
\<close>

theorem decodeAudioData_frames_samples:
  assumes "even (length bytes)" and "2 * numChannels \<le> length bytes"
    and "length bytes < 2 ^ 32" and "supported ctx numChannels rate"
  shows "\<exists>buf. decodeAudioData bytes ctx rate numChannels = Inr buf
           \<and> numberOfChannels buf = numChannels \<and> sampleRate buf = rate
           \<and> length (channelData buf) = numChannels
           \<and> (\<forall>c < numChannels.
                 length (channelData buf ! c) = length bytes div 2 div numChannels
                 \<and> (\<forall>i < length bytes div 2 div numChannels.
                       channelData buf ! c ! i =
                         Num (of_int (le_int16_at bytes (i * numChannels + c)) / 32768)
                       \<and> - 1 \<le> (of_int (le_int16_at bytes (i * numChannels + c)) :: rat) / 32768
                       \<and> (of_int (le_int16_at bytes (i * numChannels + c)) :: rat) / 32768 < 1))"
  using assms by (rule decodeAudioData_shape)

lemma conformant_stereo: "supported conformant_host 2 48000"
  by (simp add: supported_def conformant_host_def)

text \<open>
  The theorem at ten bytes in stereo: two whole frames and a trailing half frame, which
  is dropped. The samples are the extreme values \<open>-32768\<close> and \<open>32767\<close> and
  \<open>\<plusminus>16384\<close>.
\<close>

theorem decodeAudioData_frames_samples_witness:
  "even (length [0x00, 0x80, 0xff, 0x7f, 0x00, 0x40, 0x00, 0xc0, 0x01, 0x00 :: byte])
   \<and> 2 * 2 \<le> length [0x00, 0x80, 0xff, 0x7f, 0x00, 0x40, 0x00, 0xc0, 0x01, 0x00 :: byte]
   \<and> supported conformant_host 2 48000
   \<and> (\<exists>buf. decodeAudioData [0x00, 0x80, 0xff, 0x7f, 0x00, 0x40, 0x00, 0xc0, 0x01, 0x00]
                  conformant_host 48000 2
            = Inr buf
          \<and> length (channelData buf) = 2
          \<and> length (channelData buf ! 0) = 2 \<and> length (channelData buf ! 1) = 2
          \<and> channelData buf ! 0 ! 0 = Num (- 1)
          \<and> channelData buf ! 1 ! 0 = Num (32767 / 32768)
          \<and> channelData buf ! 0 ! 1 = Num (1 / 2)
          \<and> channelData buf ! 1 ! 1 = Num (- 1 / 2))"
proof -
  let ?D = "[0x00, 0x80, 0xff, 0x7f, 0x00, 0x40, 0x00, 0xc0, 0x01, 0x00 :: byte]"
  have ev: "even (length ?D)" by simp
  have fr: "2 * 2 \<le> length ?D" by simp
  have sm: "length ?D < 2 ^ 32" by simp
  from decodeAudioData_frames_samples [OF ev fr sm conformant_stereo]
  obtain buf where dec: "decodeAudioData ?D conformant_host 48000 2 = Inr buf"
    and len: "length (channelData buf) = 2"
    and ch: "\<forall>c<2. length (channelData buf ! c) = length ?D div 2 div 2
               \<and> (\<forall>i<length ?D div 2 div 2.
                     channelData buf ! c ! i = Num (of_int (le_int16_at ?D (i * 2 + c)) / 32768)
                     \<and> - 1 \<le> (of_int (le_int16_at ?D (i * 2 + c)) :: rat) / 32768
                     \<and> (of_int (le_int16_at ?D (i * 2 + c)) :: rat) / 32768 < 1)"
    by blast
  have c0: "(0::nat) < 2" and c1: "(1::nat) < 2" by simp_all
  have frs: "length ?D div 2 div 2 = 2" by simp
  have v: "le_int16_at ?D 0 = - 32768" "le_int16_at ?D 1 = 32767"
    "le_int16_at ?D 2 = 16384" "le_int16_at ?D 3 = - 16384"
    by (simp_all add: le_int16_at_def)
  from ch c0 have a0: "length (channelData buf ! 0) = 2"
    and s0: "\<forall>i<2. channelData buf ! 0 ! i = Num (of_int (le_int16_at ?D (i * 2 + 0)) / 32768)"
    unfolding frs by blast+
  from ch c1 have a1: "length (channelData buf ! 1) = 2"
    and s1: "\<forall>i<2. channelData buf ! 1 ! i = Num (of_int (le_int16_at ?D (i * 2 + 1)) / 32768)"
    unfolding frs by blast+
  from s0 c0 have "channelData buf ! 0 ! 0 = Num (- 1)" using v by fastforce
  moreover from s0 c1 have "channelData buf ! 0 ! 1 = Num (1 / 2)" using v by fastforce
  moreover from s1 c0 have "channelData buf ! 1 ! 0 = Num (32767 / 32768)" using v by fastforce
  moreover from s1 c1 have "channelData buf ! 1 ! 1 = Num (- 1 / 2)" using v by fastforce
  ultimately show ?thesis using ev fr conformant_stereo dec len a0 a1 by blast
qed

section \<open>Properties of the plan renderer\<close>

lemma write_at_prefix:
  "offset + length bs \<le> length h \<Longrightarrow> write_at offset bs (h @ t) = write_at offset bs h @ t"
  by (simp add: write_at_def)

lemma zeros_44:
  "replicate 44 (0::byte) =
     [0, 0, 0, 0, 0, 0, 0, 0, 0, 0, 0, 0, 0, 0, 0, 0, 0, 0, 0, 0, 0, 0,
      0, 0, 0, 0, 0, 0, 0, 0, 0, 0, 0, 0, 0, 0, 0, 0, 0, 0, 0, 0, 0, 0]"
  by (simp add: numeral_eq_Suc)

lemma str_bytes:
  "map (\<lambda>ch. of_nat (of_char ch)) ''RIFF'' = [0x52, 0x49, 0x46, 0x46 :: byte]"
  "map (\<lambda>ch. of_nat (of_char ch)) ''WAVE'' = [0x57, 0x41, 0x56, 0x45 :: byte]"
  "map (\<lambda>ch. of_nat (of_char ch)) ''fmt '' = [0x66, 0x6d, 0x74, 0x20 :: byte]"
  "map (\<lambda>ch. of_nat (of_char ch)) ''data'' = [0x64, 0x61, 0x74, 0x61 :: byte]"
  by simp_all

lemma write4:
  "write_at 0 [a, b, c, d] (x0 # x1 # x2 # x3 # xs) = a # b # c # d # xs"
  by (simp add: write_at_def)

lemma write2:
  "write_at 0 [a, b] (x0 # x1 # xs) = a # b # xs"
  by (simp add: write_at_def)

lemma write_at_Cons:
  "write_at (Suc n) bs (x # xs) = x # write_at n bs xs"
  by (simp add: write_at_def)

lemma write_at_Cons_numeral:
  "write_at (numeral k) bs (x # xs) = x # write_at (pred_numeral k) bs xs"
  by (simp add: write_at_def numeral_eq_Suc)

lemma header_writes:
  "(setUint32 40 len
    \<circ> writeString 36 ''data''
    \<circ> setUint16 34 16
    \<circ> setUint16 32 (numChannels * 2)
    \<circ> setUint32 28 (rate * numChannels * 2)
    \<circ> setUint32 24 rate
    \<circ> setUint16 22 numChannels
    \<circ> setUint16 20 1
    \<circ> setUint32 16 16
    \<circ> writeString 12 ''fmt ''
    \<circ> writeString 8 ''WAVE''
    \<circ> setUint32 4 (36 + len)
    \<circ> writeString 0 ''RIFF'') (replicate 44 0 @ t) = wav_header len rate numChannels @ t"
  unfolding zeros_44 o_apply writeString_def setUint16_def setUint32_def str_bytes wav_header_def
  by (simp only: write_at_Cons_numeral pred_numeral_simps write4 write2 append_Cons write_at_Cons 
     Num.BitM.simps One_nat_def append_Nil)

lemma createWavFile_layout:
  "createWavFile pcmData rate numChannels =
     wav_header (length pcmData) rate numChannels @ pcmData"
proof -
  have len: "length (wav_header (length pcmData) rate numChannels) = 44"
    by (simp add: wav_header_def)
  have "createWavFile pcmData rate numChannels =
      write_at 44 pcmData
        (wav_header (length pcmData) rate numChannels @ replicate (length pcmData) 0)"
    unfolding createWavFile_def Let_def replicate_add
    by (simp only: o_apply header_writes [unfolded o_apply])
  also have "\<dots> = wav_header (length pcmData) rate numChannels @ pcmData"
    using len by (simp add: write_at_def)
  finally show ?thesis .
qed

lemma le16_decode:
  "unat (of_nat v :: byte) + 256 * unat (of_nat (v div 256) :: byte) = v mod 65536"
proof -
  have "v mod 65536 = v mod 256 + 256 * (v div 256 mod 256)"
    using mod_mult2_eq [of v 256 256] by simp
  then show ?thesis by (simp add: unat_of_nat)
qed

lemma le32_decode:
  "unat (of_nat v :: byte) + 256 * unat (of_nat (v div 256) :: byte)
   + 65536 * unat (of_nat (v div 65536) :: byte)
   + 16777216 * unat (of_nat (v div 16777216) :: byte) = v mod 4294967296"
proof -
  have a: "v mod 4294967296 = v mod 65536 + 65536 * (v div 65536 mod 65536)"
    using mod_mult2_eq [of v 65536 65536] by simp
  have b: "v mod 65536 = v mod 256 + 256 * (v div 256 mod 256)"
    using mod_mult2_eq [of v 256 256] by simp
  have c: "v div 65536 mod 65536 =
      v div 65536 mod 256 + 256 * (v div 65536 div 256 mod 256)"
    using mod_mult2_eq [of "v div 65536" 256 256] by simp
  have d: "v div 65536 div 256 = v div 16777216"
    by (simp add: div_mult2_eq [symmetric])
  from a b c d show ?thesis by (simp add: unat_of_nat)
qed

lemma wav_header_fields:
  "length (wav_header len rate numChannels) = 44"
  "u16_at (wav_header len rate numChannels) 20 = 1"
  "u16_at (wav_header len rate numChannels) 22 = numChannels mod 2 ^ 16"
  "u32_at (wav_header len rate numChannels) 24 = rate mod 2 ^ 32"
  "u32_at (wav_header len rate numChannels) 28 = rate * numChannels * 2 mod 2 ^ 32"
  "u16_at (wav_header len rate numChannels) 32 = numChannels * 2 mod 2 ^ 16"
  "u16_at (wav_header len rate numChannels) 34 = 16"
  "u32_at (wav_header len rate numChannels) 40 = len mod 2 ^ 32"
proof -
  define byteRate where "byteRate = rate * numChannels * 2"
  define blockAlign where "blockAlign = numChannels * 2"
  note defs = wav_header_def byteRate_def [symmetric] blockAlign_def [symmetric]
  show "length (wav_header len rate numChannels) = 44"
    by (simp add: wav_header_def)
  show "u16_at (wav_header len rate numChannels) 20 = 1"
    unfolding u16_at_def defs by simp
  show "u16_at (wav_header len rate numChannels) 22 = numChannels mod 2 ^ 16"
    unfolding u16_at_def defs by (simp add: le16_decode)
  show "u32_at (wav_header len rate numChannels) 24 = rate mod 2 ^ 32"
    unfolding u32_at_def defs by (simp add: le32_decode)
  show "u32_at (wav_header len rate numChannels) 28 = rate * numChannels * 2 mod 2 ^ 32"
    unfolding u32_at_def defs by (simp add: le32_decode)
  show "u16_at (wav_header len rate numChannels) 32 = numChannels * 2 mod 2 ^ 16"
    unfolding u16_at_def defs by (simp add: le16_decode)
  show "u16_at (wav_header len rate numChannels) 34 = 16"
    unfolding u16_at_def defs by simp
  show "u32_at (wav_header len rate numChannels) 40 = len mod 2 ^ 32"
    unfolding u32_at_def defs by (simp add: le32_decode)
qed

declare stanza_loop.simps [simp del]

lemma send_accepted:
  "\<forall>k. rejection env k = None \<Longrightarrow> send env c g = (None, g\<lparr>trace := trace g @ [Send c]\<rparr>)"
  by (simp add: send_def)

lemma appends_skip: "appends skip []"
  by (simp add: appends_def skip_def)

lemma appends_emit: "appends (emit e) [e]"
  by (simp add: appends_def emit_def)

lemma appends_sleep: "appends (sleep ms) [Sleep ms]"
  by (simp add: appends_def emit_def sleep_def)

lemma appends_send: "\<forall>k. rejection env k = None \<Longrightarrow> appends (send env c) [Send c]"
  by (simp add: appends_def send_def)

lemma appends_seq_Nil: "appends (seq []) []"
  by (simp add: appends_def)

lemma appends_seq_Cons:
  "appends f es \<Longrightarrow> appends (seq fs) ess \<Longrightarrow> appends (seq (f # fs)) (es @ ess)"
  by (simp add: appends_def)

lemma appends_if:
  "appends f es \<Longrightarrow> appends h es' \<Longrightarrow> appends (if b then f else h) (if b then es else es')"
  by simp

lemma appends_case_option:
  "appends f es \<Longrightarrow> (\<And>c. appends (h c) (es' c)) \<Longrightarrow>
     appends (case x of None \<Rightarrow> f | Some c \<Rightarrow> h c) (case x of None \<Rightarrow> es | Some c \<Rightarrow> es' c)"
  by (cases x) simp_all

lemma stanza_body_accepted:
  assumes acc: "\<forall>k. rejection env k = None" and i: "i < length (stanzas musicPlan)"
  shows "appends (stanza_body env musicPlan i)
     (stanza_block (length (stanzas musicPlan)) i (stanzas musicPlan ! i)
        (if Suc i < length (stanzas musicPlan) then Some (stanzas musicPlan ! Suc i) else None))"
proof -
  let ?N = "length (stanzas musicPlan)"
  let ?st = "stanzas musicPlan ! i"
  let ?nx = "stanzas musicPlan ! (i + 1)"
  let ?differs = "config_bpm ?nx \<noteq> config_bpm ?st \<or> config_scale ?nx \<noteq> config_scale ?st"
  let ?es = "[Progress (i + 1) ?N ?st]
      @ [Send (SetWeightedPrompts (map wire (prompts ?st)))]
      @ (case config ?st of None \<Rightarrow> []
         | Some c \<Rightarrow> [Send (SetMusicGenerationConfig (translate_config c))])
      @ (if i = 0 then [Send SessionPlay] else [])
      @ [Sleep (seconds ?st * 1000)]
      @ (if i < ?N - 1
         then (if ?differs then [Send SessionPause] @ [Sleep 100] @ [Send SessionPlay] @ [] else [])
         else [])
      @ []"
  have run: "appends (stanza_body env musicPlan i) ?es"
    unfolding stanza_body_def Let_def
    by (intro appends_seq_Cons appends_seq_Nil appends_if appends_case_option appends_emit
        appends_sleep appends_skip appends_send [OF acc])
  have lt: "i < ?N - 1 \<longleftrightarrow> Suc i < ?N"
    by auto
  have eq: "?es = stanza_block ?N i ?st (if Suc i < ?N then Some (stanzas musicPlan ! Suc i) else None)"
    unfolding lt by (simp add: stanza_block_def)
  from run show ?thesis
    unfolding eq .
qed

lemma drop_next:
  "(case drop (Suc i) xs of [] \<Rightarrow> None | n # _ \<Rightarrow> Some n) =
   (if Suc i < length xs then Some (xs ! Suc i) else None)"
proof (cases "Suc i < length xs")
  case True
  then have "drop (Suc i) xs = xs ! Suc i # drop (Suc (Suc i)) xs"
    by (simp add: Cons_nth_drop_Suc)
  with True show ?thesis by simp
next
  case False
  then show ?thesis by simp
qed

lemma stanza_loop_accepted:
  assumes acc: "\<forall>k. rejection env k = None"
  shows "stanza_loop env musicPlan i g =
     (None, g\<lparr>trace := trace g @
        stanza_blocks (length (stanzas musicPlan)) i (drop i (stanzas musicPlan))\<rparr>)"
  using acc
proof (induction env musicPlan i g rule: stanza_loop.induct)
  case (1 env musicPlan i g)
  let ?N = "length (stanzas musicPlan)"
  show ?case
  proof (cases "i < ?N")
    case False
    then show ?thesis by (simp add: stanza_loop.simps [of env musicPlan i g])
  next
    case True
    let ?blk = "stanza_block ?N i (stanzas musicPlan ! i)
        (if Suc i < ?N then Some (stanzas musicPlan ! Suc i) else None)"
    let ?g' = "g\<lparr>trace := trace g @ ?blk\<rparr>"
    have body: "stanza_body env musicPlan i g = (None, ?g')"
      using stanza_body_accepted [OF "1.prems" True] by (simp add: appends_def)
    have rest: "stanza_loop env musicPlan (i + 1) ?g' =
        (None, ?g'\<lparr>trace := trace ?g' @ stanza_blocks ?N (i + 1) (drop (i + 1) (stanzas musicPlan))\<rparr>)"
      using "1.IH" [OF True body [symmetric] refl "1.prems"] .
    have dr: "drop i (stanzas musicPlan) = stanzas musicPlan ! i # drop (Suc i) (stanzas musicPlan)"
      using True by (simp add: Cons_nth_drop_Suc)
    have "stanza_loop env musicPlan i g = stanza_loop env musicPlan (i + 1) ?g'"
      using True by (subst stanza_loop.simps) (simp only: body if_True prod.case option.case)
    also note rest
    also have "(None, ?g'\<lparr>trace := trace ?g' @
          stanza_blocks ?N (i + 1) (drop (i + 1) (stanzas musicPlan))\<rparr>) =
        (None, g\<lparr>trace := trace g @ stanza_blocks ?N i (drop i (stanzas musicPlan))\<rparr>)"
      unfolding dr by (simp add: drop_next)
    finally show ?thesis .
  qed
qed

lemma extendsD: "extends f \<Longrightarrow> f g = (r, g') \<Longrightarrow> \<exists>es. g' = g\<lparr>trace := trace g @ es\<rparr>"
  unfolding extends_def by blast

lemma extends_skip: "extends skip"
  unfolding extends_def skip_def by (intro allI impI exI [of _ "[]"]) auto

lemma extends_emit: "extends (emit e)"
  unfolding extends_def emit_def by (intro allI impI exI [of _ "[e]"]) auto

lemma extends_sleep: "extends (sleep ms)"
  unfolding sleep_def by (rule extends_emit)

lemma extends_send: "extends (send env c)"
  unfolding extends_def send_def by (intro allI impI exI [of _ "[Send c]"]) auto

lemma extends_seq_Nil: "extends (seq [])"
  unfolding extends_def by (intro allI impI exI [of _ "[]"]) auto

lemma extends_seq_Cons:
  assumes f: "extends f" and fs: "extends (seq fs)"
  shows "extends (seq (f # fs))"
  unfolding extends_def
proof (intro allI impI)
  fix g r g'
  assume run: "seq (f # fs) g = (r, g')"
  obtain r1 g1 where f1: "f g = (r1, g1)" by (cases "f g")
  from extendsD [OF f f1] obtain es where g1: "g1 = g\<lparr>trace := trace g @ es\<rparr>" by blast
  show "\<exists>es. g' = g\<lparr>trace := trace g @ es\<rparr>"
  proof (cases r1)
    case (Some e)
    with run f1 have "g' = g1" by simp
    with g1 show ?thesis by blast
  next
    case None
    with run f1 have "seq fs g1 = (r, g')" by simp
    from extendsD [OF fs this] obtain es' where "g' = g1\<lparr>trace := trace g1 @ es'\<rparr>" by blast
    with g1 have "g' = g\<lparr>trace := trace g @ (es @ es')\<rparr>" by simp
    then show ?thesis by blast
  qed
qed

lemma extends_if: "extends f \<Longrightarrow> extends h \<Longrightarrow> extends (if b then f else h)"
  by simp

lemma extends_case_option:
  "extends f \<Longrightarrow> (\<And>c. extends (h c)) \<Longrightarrow> extends (case x of None \<Rightarrow> f | Some c \<Rightarrow> h c)"
  by (cases x) simp_all

lemma extends_stanza_body: "extends (stanza_body env musicPlan i)"
  unfolding stanza_body_def Let_def
  by (intro extends_seq_Cons extends_seq_Nil extends_if extends_case_option extends_emit
      extends_sleep extends_skip extends_send)

lemma stanza_loop_extends:
  "stanza_loop env musicPlan i g = (r, g') \<Longrightarrow> \<exists>es. g' = g\<lparr>trace := trace g @ es\<rparr>"
proof (induction env musicPlan i g rule: stanza_loop.induct)
  case (1 env musicPlan i g)
  show ?case
  proof (cases "i < length (stanzas musicPlan)")
    case False
    with "1.prems" have "g' = g" by (simp add: stanza_loop.simps [of env musicPlan i g])
    then have "g' = g\<lparr>trace := trace g @ []\<rparr>" by simp
    then show ?thesis by blast
  next
    case True
    obtain r1 g1 where b: "stanza_body env musicPlan i g = (r1, g1)"
      by (cases "stanza_body env musicPlan i g")
    from extendsD [OF extends_stanza_body b]
    obtain es where g1: "g1 = g\<lparr>trace := trace g @ es\<rparr>" by blast
    show ?thesis
    proof (cases r1)
      case (Some e)
      with "1.prems" True b have "g' = g1"
        by (simp add: stanza_loop.simps [of env musicPlan i g])
      with g1 show ?thesis by blast
    next
      case None
      with "1.prems" True b have "stanza_loop env musicPlan (i + 1) g1 = (r, g')"
        by (simp add: stanza_loop.simps [of env musicPlan i g])
      from "1.IH" [OF True b [symmetric, unfolded None] refl this]
      obtain es' where "g' = g1\<lparr>trace := trace g1 @ es'\<rparr>" by blast
      with g1 have "g' = g\<lparr>trace := trace g @ (es @ es')\<rparr>" by simp
      then show ?thesis by blast
    qed
  qed
qed

lemma extends_stanza_loop: "extends (stanza_loop env musicPlan i)"
  unfolding extends_def using stanza_loop_extends by blast

lemma extends_run: "extends (seq [stanza_loop env musicPlan 0, send env SessionStop, sleep 500])"
  by (intro extends_seq_Cons extends_seq_Nil extends_stanza_loop extends_send extends_sleep)

lemma gen_processAudioChunks_pushes:
  "\<exists>pushed. gen_processAudioChunks cs g = g\<lparr>audioData := audioData g @ pushed\<rparr>
     \<and> concat pushed = concat (map payload cs)"
proof (induction cs arbitrary: g)
  case Nil
  have "gen_processAudioChunks [] g = g\<lparr>audioData := audioData g @ []\<rparr>" by simp
  then show ?case by fastforce
next
  case (Cons c cs)
  let ?one = "case data c of None \<Rightarrow> [] | Some bs \<Rightarrow> if bs = [] then [] else [bs]"
  let ?g1 = "g\<lparr>audioData := audioData g @ ?one\<rparr>"
  have step: "gen_processAudioChunks (c # cs) g = gen_processAudioChunks cs ?g1"
    by (simp split: option.split)
  from Cons.IH [of ?g1] obtain pushed where
    p: "gen_processAudioChunks cs ?g1 = ?g1\<lparr>audioData := audioData ?g1 @ pushed\<rparr>"
    and c: "concat pushed = concat (map payload cs)" by blast
  have "gen_processAudioChunks (c # cs) g = g\<lparr>audioData := audioData g @ (?one @ pushed)\<rparr>"
    unfolding step p by simp
  moreover have "concat (?one @ pushed) = concat (map payload (c # cs))"
    using c by (simp add: payload_def split: option.split)
  ultimately show ?case by blast
qed

lemma receive_pushes:
  "\<exists>pushed. receive msgs g = g\<lparr>audioData := audioData g @ pushed\<rparr>
     \<and> concat pushed = received_pcm msgs"
  unfolding receive_def
proof (induction msgs arbitrary: g)
  case Nil
  have "fold gen_onmessage [] g = g\<lparr>audioData := audioData g @ []\<rparr>" by simp
  then show ?case by (fastforce simp: received_pcm_def)
next
  case (Cons e msgs)
  obtain one where o: "gen_onmessage e g = g\<lparr>audioData := audioData g @ one\<rparr>"
    and oc: "concat one = (case audioChunks e of None \<Rightarrow> [] | Some cs \<Rightarrow> concat (map payload cs))"
  proof (cases "audioChunks e")
    case None
    then have "gen_onmessage e g = g\<lparr>audioData := audioData g @ []\<rparr>"
      by (simp add: gen_onmessage_def)
    with None that [of "[]"] show ?thesis by simp
  next
    case (Some cs)
    from gen_processAudioChunks_pushes [of cs g] obtain pushed where
      "gen_processAudioChunks cs g = g\<lparr>audioData := audioData g @ pushed\<rparr>"
      "concat pushed = concat (map payload cs)" by blast
    with Some that [of pushed] show ?thesis by (simp add: gen_onmessage_def)
  qed
  let ?g1 = "g\<lparr>audioData := audioData g @ one\<rparr>"
  from Cons.IH [of ?g1] obtain pushed where
    p: "fold gen_onmessage msgs ?g1 = ?g1\<lparr>audioData := audioData ?g1 @ pushed\<rparr>"
    and c: "concat pushed = received_pcm msgs" by blast
  have "fold gen_onmessage (e # msgs) g = g\<lparr>audioData := audioData g @ (one @ pushed)\<rparr>"
    using o p by simp
  moreover have "concat (one @ pushed) = received_pcm (e # msgs)"
    using c oc by (simp add: received_pcm_def)
  ultimately show ?case by blast
qed

lemma generateMusic_success:
  assumes "generateMusic env musicPlan g = (Inr wav, g')"
  shows "wav = createWavFile (received_pcm (inbox env)) 48000 2"
proof -
  from assms have idle: "\<not> isGenerating g"
    by (auto simp: generateMusic_def)
  from assms idle obtain h where h: "connect_result env = Inr h"
    by (cases "connect_result env") (auto simp: generateMusic_def Let_def)
  let ?g1 = "g\<lparr>isGenerating := True, audioData := [], gsession := Some h\<rparr>"
  obtain r g2 where run:
    "seq [stanza_loop env musicPlan 0, send env SessionStop, sleep 500] ?g1 = (r, g2)"
    by (cases "seq [stanza_loop env musicPlan 0, send env SessionStop, sleep 500] ?g1")
  from assms idle h run have r: "r = None"
    by (cases r) (auto simp: generateMusic_def Let_def)
  from assms idle h run r
  have wav: "wav = createWavFile (concat (audioData (receive (inbox env) g2))) 48000 2"
    by (auto simp: generateMusic_def Let_def)
  from extendsD [OF extends_run run] obtain es where "g2 = ?g1\<lparr>trace := trace ?g1 @ es\<rparr>"
    by blast
  then have empty: "audioData g2 = []" by simp
  from receive_pushes [of "inbox env" g2] obtain pushed where
    "receive (inbox env) g2 = g2\<lparr>audioData := audioData g2 @ pushed\<rparr>"
    "concat pushed = received_pcm (inbox env)" by blast
  with empty have "concat (audioData (receive (inbox env) g2)) = received_pcm (inbox env)"
    by simp
  with wav show ?thesis by simp
qed

text \<open>
  Claim C8. The file returned by a successful run of the renderer is a header of 44
  bytes followed by the decoded PCM byte sequences of the messages received during the
  run, concatenated in arrival order. Read back as little-endian numbers, the header
  holds the format tag 1, the channel count 2, the sample rate 48000, the byte rate
  \<open>48000 * 2 * 2\<close>, the block align \<open>2 * 2\<close>, 16 bits per sample, and a data-length
  field equal to the number of PCM bytes (which the 32-bit field holds when that number
  is below \<open>2^32\<close>). The general layout for any rate and channel count is
  \<open>createWavFile_layout\<close> with \<open>wav_header_fields\<close>.
\<close>

theorem generateMusic_file:
  assumes "generateMusic env musicPlan g = (Inr wav, g')"
  shows "\<exists>header. wav = header @ received_pcm (inbox env)
           \<and> length header = 44
           \<and> u16_at header 20 = 1
           \<and> u16_at header 22 = 2
           \<and> u32_at header 24 = 48000
           \<and> u32_at header 28 = 48000 * 2 * 2
           \<and> u16_at header 32 = 2 * 2
           \<and> u16_at header 34 = 16
           \<and> (length (received_pcm (inbox env)) < 2 ^ 32 \<longrightarrow>
                u32_at header 40 = length (received_pcm (inbox env)))"
proof -
  let ?pcm = "received_pcm (inbox env)"
  let ?h = "wav_header (length ?pcm) 48000 2"
  have "wav = ?h @ ?pcm"
    using generateMusic_success [OF assms] by (simp only: createWavFile_layout)
  moreover have "length ?h = 44" "u16_at ?h 20 = 1" "u16_at ?h 34 = 16"
    by (rule wav_header_fields)+
  moreover have "u16_at ?h 22 = 2" "u32_at ?h 24 = 48000" "u32_at ?h 28 = 48000 * 2 * 2"
    "u16_at ?h 32 = 2 * 2"
    by (simp_all add: wav_header_fields)
  moreover have "length ?pcm < 2 ^ 32 \<longrightarrow> u32_at ?h 40 = length ?pcm"
    by (simp add: wav_header_fields)
  ultimately show ?thesis by blast
qed

text \<open>
  Claim C9. A call of \<open>generateMusic\<close> on a renderer whose generation is in progress
  is rejected with the busy error and leaves the renderer as it was: audio data,
  session, busy flag and trace are unchanged.
\<close>

theorem generateMusic_busy:
  "isGenerating g \<Longrightarrow> generateMusic env musicPlan g = (Inl Busy, g)"
  by (simp add: generateMusic_def)

lemma generateMusic_accepted:
  assumes "\<not> isGenerating g" and "connect_result env = Inr h"
    and "\<forall>k. rejection env k = None"
  shows "\<exists>g'. generateMusic env musicPlan g =
             (Inr (createWavFile (received_pcm (inbox env)) 48000 2), g')
           \<and> trace g' = trace g
               @ stanza_blocks (length (stanzas musicPlan)) 0 (stanzas musicPlan)
               @ [Send SessionStop, Sleep 500]
               @ [Send SessionStop]"
proof -
  let ?g1 = "g\<lparr>isGenerating := True, audioData := [], gsession := Some h\<rparr>"
  let ?blocks = "stanza_blocks (length (stanzas musicPlan)) 0 (stanzas musicPlan)"
  let ?g2 = "?g1\<lparr>trace := trace g @ ?blocks @ [Send SessionStop, Sleep 500]\<rparr>"
  have run: "seq [stanza_loop env musicPlan 0, send env SessionStop, sleep 500] ?g1 = (None, ?g2)"
    by (simp add: stanza_loop_accepted [OF assms(3)] send_accepted [OF assms(3)] sleep_def emit_def)
  from receive_pushes [of "inbox env" ?g2] obtain pushed where
    rc: "receive (inbox env) ?g2 = ?g2\<lparr>audioData := audioData ?g2 @ pushed\<rparr>" by blast
  let ?g' = "gen_finally ((receive (inbox env) ?g2)\<lparr>isGenerating := False\<rparr>)"
  have res: "generateMusic env musicPlan g =
      (Inr (createWavFile (concat (audioData (receive (inbox env) ?g2))) 48000 2), ?g')"
    using assms(1,2) run by (simp add: generateMusic_def Let_def)
  from generateMusic_success [OF res]
  have "generateMusic env musicPlan g =
      (Inr (createWavFile (received_pcm (inbox env)) 48000 2), ?g')"
    using res by simp
  moreover have "trace ?g' =
      trace g @ ?blocks @ [Send SessionStop, Sleep 500] @ [Send SessionStop]"
    unfolding rc by (simp add: gen_finally_def)
  ultimately show ?thesis by blast
qed

text \<open>
  Claim C7. When the connection is established and the session accepts every command,
  a run of the renderer on an idle instance returns a file and adds to the trace, for
  the stanzas in plan order, the block of effects \<open>stanza_block\<close> of each stanza: the
  progress event with the 1-based index and the number of stanzas, the stanza's
  weighted prompts, its translated configuration when it has one, \<open>play\<close> for the first
  stanza only, the wait of \<open>seconds * 1000\<close> milliseconds, and the cycle pause, wait of 100
  milliseconds, play exactly when a next stanza exists and differs in bpm or scale.
  After the last block come \<open>stop\<close> and the drain wait of 500 milliseconds; the
  \<open>finally\<close> block then issues \<open>stop\<close> once more.
\<close>

theorem generateMusic_stanzas_in_order:
  assumes "\<not> isGenerating g" and "connect_result env = Inr h"
    and "\<forall>k. rejection env k = None"
  shows "\<exists>wav g'. generateMusic env musicPlan g = (Inr wav, g')
           \<and> trace g' = trace g
               @ stanza_blocks (length (stanzas musicPlan)) 0 (stanzas musicPlan)
               @ [Send SessionStop, Sleep 500]
               @ [Send SessionStop]"
  using generateMusic_accepted [OF assms] by blast

lemma accepting_env_facts:
  "\<not> isGenerating idle_renderer" "connect_result accepting_env = Inr 1"
  "\<forall>k. rejection accepting_env k = None"
  "received_pcm (inbox accepting_env) = [1, 2, 3, 4, 5, 6]"
  by (simp_all add: idle_renderer_def accepting_env_def received_pcm_def payload_def)

text \<open>
  The theorem at the two-stanza plan of the specification's scenario: the second stanza
  sets a bpm and the first has none, so the context-reset cycle is issued between them.
\<close>

theorem generateMusic_stanzas_in_order_witness:
  "\<not> isGenerating idle_renderer \<and> connect_result accepting_env = Inr 1
   \<and> (\<forall>k. rejection accepting_env k = None)
   \<and> (\<exists>wav g'. generateMusic accepting_env two_stanza_plan idle_renderer = (Inr wav, g')
         \<and> trace g' =
             [Progress 1 2 calm_stanza,
              Send (SetWeightedPrompts [\<lparr>ptext = ''calm'', weight = 1\<rparr>]),
              Send SessionPlay,
              Sleep 5000,
              Send SessionPause, Sleep 100, Send SessionPlay,
              Progress 2 2 tense_stanza,
              Send (SetWeightedPrompts [\<lparr>ptext = ''tense'', weight = 1\<rparr>]),
              Send (SetMusicGenerationConfig
                \<lparr>bpm_w = Some 140, temperature_w = None, scale_w = None, muteBass = None,
                 muteDrums = None\<rparr>),
              Sleep 5000,
              Send SessionStop, Sleep 500, Send SessionStop])"
proof -
  have blocks: "stanza_blocks (length (stanzas two_stanza_plan)) 0 (stanzas two_stanza_plan) =
      [Progress 1 2 calm_stanza,
       Send (SetWeightedPrompts [\<lparr>ptext = ''calm'', weight = 1\<rparr>]),
       Send SessionPlay,
       Sleep 5000,
       Send SessionPause, Sleep 100, Send SessionPlay,
       Progress 2 2 tense_stanza,
       Send (SetWeightedPrompts [\<lparr>ptext = ''tense'', weight = 1\<rparr>]),
       Send (SetMusicGenerationConfig
         \<lparr>bpm_w = Some 140, temperature_w = None, scale_w = None, muteBass = None,
          muteDrums = None\<rparr>),
       Sleep 5000]"
    by (simp add: two_stanza_plan_def stanza_block_def config_bpm_def config_scale_def
        translate_config_def wire_def)
      (simp add: calm_stanza_def tense_stanza_def translate_config_def wire_def)
  have "trace idle_renderer = []" by (simp add: idle_renderer_def)
  with generateMusic_stanzas_in_order [OF accepting_env_facts(1,2,3), of two_stanza_plan]
    accepting_env_facts blocks
  show ?thesis by simp
qed

text \<open>
  The theorem at the same run, in which two messages deliver six PCM bytes in all.
\<close>

theorem generateMusic_file_witness:
  "\<exists>wav g'. generateMusic accepting_env two_stanza_plan idle_renderer = (Inr wav, g')
     \<and> (\<exists>header. wav = header @ [1, 2, 3, 4, 5, 6]
           \<and> length header = 44
           \<and> u16_at header 20 = 1
           \<and> u16_at header 22 = 2
           \<and> u32_at header 24 = 48000
           \<and> u32_at header 28 = 192000
           \<and> u16_at header 32 = 4
           \<and> u16_at header 34 = 16
           \<and> u32_at header 40 = 6)"
proof -
  from generateMusic_accepted [OF accepting_env_facts(1,2,3), of two_stanza_plan]
  obtain wav g' where run:
    "generateMusic accepting_env two_stanza_plan idle_renderer = (Inr wav, g')"
    by blast
  have len: "length [1, 2, 3, 4, 5, 6 :: byte] = 6" by simp
  from generateMusic_file [OF run, unfolded accepting_env_facts(4) len]
  obtain header where "wav = header @ [1, 2, 3, 4, 5, 6]" "length header = 44"
    "u16_at header 20 = 1" "u16_at header 22 = 2" "u32_at header 24 = 48000"
    "u32_at header 28 = 48000 * 2 * 2" "u16_at header 32 = 2 * 2" "u16_at header 34 = 16"
    "(6::nat) < 2 ^ 32 \<longrightarrow> u32_at header 40 = 6"
    by blast
  then have "wav = header @ [1, 2, 3, 4, 5, 6] \<and> length header = 44
      \<and> u16_at header 20 = 1 \<and> u16_at header 22 = 2 \<and> u32_at header 24 = 48000
      \<and> u32_at header 28 = 192000 \<and> u16_at header 32 = 4 \<and> u16_at header 34 = 16
      \<and> u32_at header 40 = 6"
    by simp
  with run show ?thesis by blast
qed

text \<open>
  The theorem at a renderer that is generating, with buffered audio and a live session.
\<close>

theorem generateMusic_busy_witness:
  "isGenerating busy_renderer
   \<and> generateMusic accepting_env two_stanza_plan busy_renderer = (Inl Busy, busy_renderer)
   \<and> audioData busy_renderer = [[1, 2]] \<and> gsession busy_renderer = Some 1"
proof -
  have b: "isGenerating busy_renderer" by (simp add: busy_renderer_def)
  from generateMusic_busy [OF b, of accepting_env two_stanza_plan] b
  show ?thesis by (simp add: busy_renderer_def)
qed

section \<open>Properties of the live playback engine\<close>

text \<open>
  Claim C10. While the playback state is paused or stopped, \<open>processAudioChunks\<close>
  returns at once with the engine exactly as it was: nothing is decoded or scheduled,
  the cursor and the playback state are unchanged, no event is raised, no timer is
  armed, and nothing of the batch is kept.
\<close>

theorem processAudioChunks_discards:
  "playbackState s = Paused \<or> playbackState s = Stopped \<Longrightarrow>
     processAudioChunks now cs s = Inr s"
  by (simp add: processAudioChunks_def)

text \<open>
  The theorem at a paused engine with a live session and at the stopped engine that the
  constructor leaves.
\<close>

theorem processAudioChunks_discards_witness:
  "(playbackState paused_engine = Paused \<or> playbackState paused_engine = Stopped)
   \<and> processAudioChunks 5 [one_frame, one_frame] paused_engine = Inr paused_engine
   \<and> (playbackState initial = Paused \<or> playbackState initial = Stopped)
   \<and> processAudioChunks 5 [one_frame] initial = Inr initial"
proof -
  have p: "playbackState paused_engine = Paused \<or> playbackState paused_engine = Stopped"
    by (simp add: paused_engine_def initial_def)
  have q: "playbackState initial = Paused \<or> playbackState initial = Stopped"
    by (simp add: initial_def)
  from processAudioChunks_discards [OF p, of 5 "[one_frame, one_frame]"]
    processAudioChunks_discards [OF q, of 5 "[one_frame]"] p q
  show ?thesis by blast
qed

lemma pause_result:
  "pause now s =
     s\<lparr>playbackState := Paused, nextStartTime := 0, outputNode := nodes s, nodes := nodes s + 1,
       effects := effects s
         @ (case session s of None \<Rightarrow> [] | Some h \<Rightarrow> [ToSession h SessionPause])
         @ [Dispatch (PlaybackStateChanged Paused),
            SetValueAtTime (outputNode s) 1 now,
            LinearRampToValueAtTime (outputNode s) 0 (now + 1 / 10)]\<rparr>"
  by (cases "session s") (simp_all add: pause_def setPlaybackState_def emit_live_def)

lemma stop_result:
  "stop now s =
     s\<lparr>playbackState := Stopped, nextStartTime := 0, session := None, sessionPromise := None,
       effects := effects s
         @ (case session s of None \<Rightarrow> [] | Some h \<Rightarrow> [ToSession h SessionStop])
         @ [Dispatch (PlaybackStateChanged Stopped),
            SetValueAtTime (outputNode s) 0 now,
            LinearRampToValueAtTime (outputNode s) 1 (now + 1 / 10)]\<rparr>"
  by (cases "session s") (simp_all add: stop_def setPlaybackState_def emit_live_def)

lemma no_active:
  assumes "\<forall>p \<in> set (map snd ps). weight p = 0 \<or> ptext p \<in> filteredPrompts s"
  shows "activePrompts (s\<lparr>promptMap := ps\<rparr>) = []"
  using assms by (auto simp: activePrompts_def filter_empty_conv)

text \<open>
  Claim C6. When every prompt of the snapshot has weight zero or a text in the filtered
  set, the prompt update raises the error event for the missing active prompt and
  pauses: the playback state is paused, and the effects added are that event, \<open>pause\<close>
  on the session if there is one, the state-change event and the gain ramp of \<open>pause\<close>.
  No prompt list is sent to the session.
\<close>

theorem setWeightedPrompts_no_active_prompt:
  assumes "\<forall>p \<in> set (map snd ps). weight p = 0 \<or> ptext p \<in> filteredPrompts s"
  shows "playbackState (setWeightedPrompts now reject ps s) = Paused
         \<and> effects (setWeightedPrompts now reject ps s) =
             effects s
             @ [Dispatch (ErrorEvent NoActivePrompt)]
             @ (case session s of None \<Rightarrow> [] | Some h \<Rightarrow> [ToSession h SessionPause])
             @ [Dispatch (PlaybackStateChanged Paused),
                SetValueAtTime (outputNode s) 1 now,
                LinearRampToValueAtTime (outputNode s) 0 (now + 1 / 10)]"
proof -
  have "setWeightedPrompts now reject ps s =
      pause now (emit_live [Dispatch (ErrorEvent NoActivePrompt)] (s\<lparr>promptMap := ps\<rparr>))"
    using no_active [OF assms] by (simp add: setWeightedPrompts_def)
  then show ?thesis
    by (simp add: pause_result emit_live_def)
qed

text \<open>
  The theorem at a playing engine whose only prompt is turned down to weight zero.
\<close>

theorem setWeightedPrompts_no_active_prompt_witness:
  "map snd [(''prompt-0'', joy\<lparr>weight := 0\<rparr>)] = [joy\<lparr>weight := 0\<rparr>]
   \<and> weight (joy\<lparr>weight := 0\<rparr>) = 0
   \<and> playbackState
        (setWeightedPrompts 10 None [(''prompt-0'', joy\<lparr>weight := 0\<rparr>)] playing_engine) = Paused
   \<and> effects (setWeightedPrompts 10 None [(''prompt-0'', joy\<lparr>weight := 0\<rparr>)] playing_engine) =
       [Dispatch (ErrorEvent NoActivePrompt), ToSession 7 SessionPause,
        Dispatch (PlaybackStateChanged Paused), SetValueAtTime 0 1 10,
        LinearRampToValueAtTime 0 0 (101 / 10)]"
proof -
  have h: "\<forall>p \<in> set (map snd [(''prompt-0'', joy\<lparr>weight := 0\<rparr>)]).
      weight p = 0 \<or> ptext p \<in> filteredPrompts playing_engine"
    by simp
  from setWeightedPrompts_no_active_prompt [OF h, of 10 None]
  show ?thesis by (simp add: playing_engine_def initial_def)
qed

text \<open>
  Claim C4. \<open>stop\<close> on a playing engine with a session, at clock reading 10: the
  playback state becomes stopped, \<open>stop\<close> is issued to the session, the cursor is
  reset, the session handle and the connection promise are discarded, and the next
  \<open>play\<close> makes a new connection attempt; \<open>onerror\<close> and \<open>onclose\<close> do the same and
  then raise their error event. The gain, however, is set to 0 and then
  ramped to 1 over a tenth of a second, the ramp of \<open>play\<close>; \<open>pause\<close> on the same
  engine sets the gain to 1 and ramps it to 0.
\<close>

theorem stop_ramps_gain_up:
  "playbackState (stop 10 playing_engine) = Stopped
   \<and> session (stop 10 playing_engine) = None
   \<and> sessionPromise (stop 10 playing_engine) = None
   \<and> nextStartTime (stop 10 playing_engine) = 0
   \<and> effects (stop 10 playing_engine) =
       [ToSession 7 SessionStop, Dispatch (PlaybackStateChanged Stopped),
        SetValueAtTime 0 0 10, LinearRampToValueAtTime 0 1 (101 / 10)]
   \<and> effects (pause 10 playing_engine) =
       [ToSession 7 SessionPause, Dispatch (PlaybackStateChanged Paused),
        SetValueAtTime 0 1 10, LinearRampToValueAtTime 0 0 (101 / 10)]
   \<and> effects (onerror 10 None playing_engine) =
       effects (stop 10 playing_engine) @ [Dispatch (ErrorEvent (SocketError None))]
   \<and> effects (onclose 10 (Some (1006, [])) playing_engine) =
       effects (stop 10 playing_engine) @ [Dispatch (ErrorEvent (SocketClosed (Some (1006, []))))]
   \<and> playbackState (onclose 10 (Some (1006, [])) playing_engine) = Stopped
   \<and> sessionPromise playing_engine = Some 0
   \<and> sessionPromise (snd (play_enter None (stop 10 playing_engine))) = Some 1
   \<and> effects (snd (play_enter None (stop 10 playing_engine))) =
       effects (stop 10 playing_engine) @ [Dispatch (PlaybackStateChanged Loading), SdkConnect 1]"
  by (simp add: stop_result pause_result play_enter_def getSession_def setPlaybackState_def
      emit_live_def onerror_def onclose_def playing_engine_def initial_def)

lemma duration_nonneg: "0 \<le> duration b"
  by (simp add: duration_def split: list.split)

lemma started_emit: "started (emit_live es s) = started s @ concat (map start_of es)"
  by (simp add: started_def emit_live_def)

lemma schedule_cases:
  "schedule now b s =
     (if nextStartTime s = 0 then
        s\<lparr>nextStartTime := now + bufferTime + duration b, timers := timers s + 1,
          effects := effects s
            @ [SetTimeout (bufferTime * 1000), SourceStart (outputNode s) b (now + bufferTime)]\<rparr>
      else if nextStartTime s < now then
        s\<lparr>playbackState := Loading, nextStartTime := 0,
          effects := effects s @ [Dispatch (PlaybackStateChanged Loading)]\<rparr>
      else
        s\<lparr>nextStartTime := nextStartTime s + duration b,
          effects := effects s @ [SourceStart (outputNode s) b (nextStartTime s)]\<rparr>)"
  by (simp add: schedule_def Let_def emit_live_def setPlaybackState_def bufferTime_def)

lemma schedule_next:
  assumes "nextStartTime s \<noteq> 0" and "now \<le> nextStartTime s"
  shows "nextStartTime (schedule now b s) = nextStartTime s + duration b"
    and "started (schedule now b s) = started s @ [(b, nextStartTime s)]"
  using assms by (simp_all add: schedule_cases started_def)

lemma schedule_all_from_cursor:
  assumes "0 < nextStartTime s"
    and "\<forall>k < length chunks.
           fst (chunks ! k) \<le> nextStartTime s + sum_list (map (\<lambda>c. duration (snd c)) (take k chunks))"
  shows "started (schedule_all chunks s) =
           started s @ map (\<lambda>k. (snd (chunks ! k),
                                  nextStartTime s + sum_list (map (\<lambda>c. duration (snd c)) (take k chunks))))
                         [0..<length chunks]
         \<and> nextStartTime (schedule_all chunks s) =
             nextStartTime s + sum_list (map (\<lambda>c. duration (snd c)) chunks)"
  using assms
proof (induction chunks arbitrary: s)
  case Nil
  then show ?case by simp
next
  case (Cons x rest)
  obtain now b where x: "x = (now, b)" by (cases x)
  let ?c = "nextStartTime s"
  let ?s1 = "schedule now b s"
  from Cons.prems(2) have "fst ((x # rest) ! 0) \<le> ?c + sum_list (map (\<lambda>c. duration (snd c)) (take 0 (x # rest)))"
    by blast
  then have le: "now \<le> ?c" by (simp add: x)
  from Cons.prems(1) have ne: "?c \<noteq> 0" by simp
  have c1: "nextStartTime ?s1 = ?c + duration b"
    and st1: "started ?s1 = started s @ [(b, ?c)]"
    using schedule_next [OF ne le] by simp_all
  have pos1: "0 < nextStartTime ?s1"
    using Cons.prems(1) duration_nonneg [of b] by (simp add: c1)
  have rest_ok: "\<forall>k < length rest.
      fst (rest ! k) \<le> nextStartTime ?s1 + sum_list (map (\<lambda>c. duration (snd c)) (take k rest))"
  proof (intro allI impI)
    fix k assume "k < length rest"
    then have "Suc k < length (x # rest)" by simp
    with Cons.prems(2) have "fst ((x # rest) ! Suc k)
        \<le> ?c + sum_list (map (\<lambda>c. duration (snd c)) (take (Suc k) (x # rest)))"
      by blast
    then show "fst (rest ! k) \<le> nextStartTime ?s1 + sum_list (map (\<lambda>c. duration (snd c)) (take k rest))"
      by (simp add: x c1 add.assoc)
  qed
  from Cons.IH [OF pos1 rest_ok]
  have ih1: "started (schedule_all rest ?s1) =
      started ?s1 @ map (\<lambda>k. (snd (rest ! k),
        nextStartTime ?s1 + sum_list (map (\<lambda>c. duration (snd c)) (take k rest)))) [0..<length rest]"
    and ih2: "nextStartTime (schedule_all rest ?s1) =
      nextStartTime ?s1 + sum_list (map (\<lambda>c. duration (snd c)) rest)"
    by simp_all
  have "started (schedule_all (x # rest) s) =
      started s @ map (\<lambda>k. (snd ((x # rest) ! k),
        ?c + sum_list (map (\<lambda>c. duration (snd c)) (take k (x # rest))))) [0..<length (x # rest)]"
    by (simp add: x ih1 st1 c1 map_upt_Suc add.assoc del: upt_Suc)
  moreover have "nextStartTime (schedule_all (x # rest) s) =
      ?c + sum_list (map (\<lambda>c. duration (snd c)) (x # rest))"
    by (simp add: x ih2 c1 add.assoc)
  ultimately show ?case by blast
qed

lemma schedule_all_fresh:
  assumes fresh: "nextStartTime s = 0"
    and nonempty: "chunks \<noteq> []"
    and clock: "0 \<le> fst (hd chunks)"
    and no_underrun: "\<forall>k < length chunks.
        fst (chunks ! k)
          \<le> fst (hd chunks) + bufferTime + sum_list (map (\<lambda>c. duration (snd c)) (take k chunks))"
  shows "started (schedule_all chunks s) =
           started s @ map (\<lambda>k. (snd (chunks ! k),
                fst (hd chunks) + bufferTime + sum_list (map (\<lambda>c. duration (snd c)) (take k chunks))))
             [0..<length chunks]
         \<and> nextStartTime (schedule_all chunks s) =
             fst (hd chunks) + bufferTime + sum_list (map (\<lambda>c. duration (snd c)) chunks)"
proof -
  from nonempty obtain now b rest where ch: "chunks = (now, b) # rest"
    by (cases chunks) auto
  let ?t0 = "now + bufferTime"
  let ?s1 = "schedule now b s"
  have c1: "nextStartTime ?s1 = ?t0 + duration b"
    and st1: "started ?s1 = started s @ [(b, ?t0)]"
    using fresh by (simp_all add: schedule_cases started_def)
  have pos1: "0 < nextStartTime ?s1"
    using clock duration_nonneg [of b] by (simp add: c1 ch bufferTime_def)
  have rest_ok: "\<forall>k < length rest.
      fst (rest ! k) \<le> nextStartTime ?s1 + sum_list (map (\<lambda>c. duration (snd c)) (take k rest))"
  proof (intro allI impI)
    fix k assume "k < length rest"
    then have "Suc k < length chunks" by (simp add: ch)
    with no_underrun have "fst (chunks ! Suc k)
        \<le> fst (hd chunks) + bufferTime + sum_list (map (\<lambda>c. duration (snd c)) (take (Suc k) chunks))"
      by blast
    then show "fst (rest ! k) \<le> nextStartTime ?s1 + sum_list (map (\<lambda>c. duration (snd c)) (take k rest))"
      by (simp add: ch c1 add.assoc)
  qed
  from schedule_all_from_cursor [OF pos1 rest_ok]
  have r1: "started (schedule_all rest ?s1) =
      started ?s1 @ map (\<lambda>k. (snd (rest ! k),
        nextStartTime ?s1 + sum_list (map (\<lambda>c. duration (snd c)) (take k rest)))) [0..<length rest]"
    and r2: "nextStartTime (schedule_all rest ?s1) =
      nextStartTime ?s1 + sum_list (map (\<lambda>c. duration (snd c)) rest)"
    by simp_all
  have "started (schedule_all chunks s) =
      started s @ map (\<lambda>k. (snd (chunks ! k),
        fst (hd chunks) + bufferTime + sum_list (map (\<lambda>c. duration (snd c)) (take k chunks))))
          [0..<length chunks]"
    by (simp add: ch r1 st1 c1 map_upt_Suc add.assoc del: upt_Suc)
  moreover have "nextStartTime (schedule_all chunks s) =
      fst (hd chunks) + bufferTime + sum_list (map (\<lambda>c. duration (snd c)) chunks)"
    by (simp add: ch r2 c1 add.assoc)
  ultimately show ?thesis by blast
qed

text \<open>
  Claim C1. The scheduler, for a decoded buffer at clock reading \<open>now\<close>: on an unset
  cursor it arms the timer, anchors the cursor at \<open>now + bufferTime\<close>, starts the buffer
  there and advances the cursor by the buffer's duration; on a cursor that has elapsed
  it starts nothing, resets the cursor and reports \<open>loading\<close>; otherwise it starts the
  buffer exactly at the cursor and advances the cursor by the duration. Hence, for a
  sequence of buffers handled from an unset cursor with no underrun in between (each
  clock reading is at most the cursor reached so far), the \<open>k\<close>-th buffer starts at
  \<open>t0\<close> plus the durations of the buffers before it, where \<open>t0\<close> is the first clock
  reading plus \<open>bufferTime\<close>: each start is the previous start plus the previous duration.
  Clock readings are not negative.
\<close>

theorem schedule_gapless:
  assumes fresh: "nextStartTime s = 0"
    and nonempty: "chunks \<noteq> []"
    and clock: "0 \<le> fst (hd chunks)"
    and t0: "t0 = fst (hd chunks) + bufferTime"
    and no_underrun: "\<forall>k < length chunks.
        fst (chunks ! k) \<le> t0 + sum_list (map (\<lambda>c. duration (snd c)) (take k chunks))"
  shows "schedule now b s' =
           (if nextStartTime s' = 0 then
              s'\<lparr>nextStartTime := now + bufferTime + duration b, timers := timers s' + 1,
                 effects := effects s'
                   @ [SetTimeout (bufferTime * 1000),
                      SourceStart (outputNode s') b (now + bufferTime)]\<rparr>
            else if nextStartTime s' < now then
              s'\<lparr>playbackState := Loading, nextStartTime := 0,
                 effects := effects s' @ [Dispatch (PlaybackStateChanged Loading)]\<rparr>
            else
              s'\<lparr>nextStartTime := nextStartTime s' + duration b,
                 effects := effects s' @ [SourceStart (outputNode s') b (nextStartTime s')]\<rparr>)
         \<and> (\<exists>news. started (schedule_all chunks s) = started s @ news
                \<and> length news = length chunks
                \<and> (\<forall>k < length chunks.
                      news ! k =
                        (snd (chunks ! k),
                         t0 + sum_list (map (\<lambda>c. duration (snd c)) (take k chunks))))
                \<and> (\<forall>k. Suc k < length chunks \<longrightarrow>
                      snd (news ! Suc k) = snd (news ! k) + duration (snd (chunks ! k)))
                \<and> nextStartTime (schedule_all chunks s) =
                    t0 + sum_list (map (\<lambda>c. duration (snd c)) chunks))"
proof -
  let ?at = "\<lambda>k. (snd (chunks ! k), t0 + sum_list (map (\<lambda>c. duration (snd c)) (take k chunks)))"
  let ?news = "map ?at [0..<length chunks]"
  from schedule_all_fresh [OF fresh nonempty clock no_underrun [unfolded t0]]
  have st: "started (schedule_all chunks s) = started s @ ?news"
    and cur: "nextStartTime (schedule_all chunks s) =
      t0 + sum_list (map (\<lambda>c. duration (snd c)) chunks)"
    unfolding t0 by simp_all
  have len: "length ?news = length chunks" by simp
  have nth: "\<forall>k < length chunks. ?news ! k = ?at k" by simp
  have gap: "\<forall>k. Suc k < length chunks \<longrightarrow>
      snd (?news ! Suc k) = snd (?news ! k) + duration (snd (chunks ! k))"
  proof (intro allI impI)
    fix k assume k: "Suc k < length chunks"
    then have "take (Suc k) chunks = take k chunks @ [chunks ! k]"
      by (simp add: take_Suc_conv_app_nth)
    with k show "snd (?news ! Suc k) = snd (?news ! k) + duration (snd (chunks ! k))"
      by simp
  qed
  from st len nth gap cur show ?thesis
    unfolding schedule_cases [of now b s'] by blast
qed

lemma list3: "length xs = 3 \<Longrightarrow> xs = [xs ! 0, xs ! 1, xs ! 2]"
  by (auto simp: list_eq_iff_nth_eq less_Suc_eq numeral_3_eq_3 numeral_2_eq_2)

lemma duration_silence: "duration (silence n) = of_nat n / 48000"
  by (simp add: duration_def silence_def)

text \<open>
  The theorem at three buffers of 1 s, 0.5 s and 1 s handled at the clock readings 0, 1
  and 3: they start at 2, 3 and 3.5, and the cursor ends at 4.5. The scheduler's case
  analysis is read at a playing engine whose cursor 12 has elapsed at clock reading 13.
\<close>

theorem schedule_gapless_witness:
  "nextStartTime loading_engine = 0 \<and> three_chunks \<noteq> [] \<and> 0 \<le> fst (hd three_chunks)
   \<and> fst (three_chunks ! 0) \<le> 2
   \<and> fst (three_chunks ! 1) \<le> 2 + duration (silence 48000)
   \<and> fst (three_chunks ! 2) \<le> 2 + duration (silence 48000) + duration (silence 24000)
   \<and> started (schedule_all three_chunks loading_engine) =
       [(silence 48000, 2), (silence 24000, 3), (silence 48000, 7 / 2)]
   \<and> nextStartTime (schedule_all three_chunks loading_engine) = 9 / 2
   \<and> schedule 13 (silence 48000) playing_engine =
       playing_engine\<lparr>playbackState := Loading, nextStartTime := 0,
         effects := [Dispatch (PlaybackStateChanged Loading)]\<rparr>"
proof -
  have fresh: "nextStartTime loading_engine = 0"
    by (simp add: loading_engine_def initial_def)
  have nonempty: "three_chunks \<noteq> []" and clock: "0 \<le> fst (hd three_chunks)"
    by (simp_all add: three_chunks_def)
  have t0: "(2::rat) = fst (hd three_chunks) + bufferTime"
    by (simp add: three_chunks_def bufferTime_def)
  have no_underrun: "\<forall>k < length three_chunks.
      fst (three_chunks ! k) \<le> 2 + sum_list (map (\<lambda>c. duration (snd c)) (take k three_chunks))"
    by (simp add: three_chunks_def less_Suc_eq numeral_3_eq_3 duration_silence all_conj_distrib)
  from schedule_gapless [OF fresh nonempty clock t0 no_underrun,
      of 13 "silence 48000" playing_engine]
  obtain news where
    sch: "schedule 13 (silence 48000) playing_engine =
           (if nextStartTime playing_engine = 0 then
              playing_engine\<lparr>nextStartTime := 13 + bufferTime + duration (silence 48000),
                 timers := timers playing_engine + 1,
                 effects := effects playing_engine
                   @ [SetTimeout (bufferTime * 1000),
                      SourceStart (outputNode playing_engine) (silence 48000) (13 + bufferTime)]\<rparr>
            else if nextStartTime playing_engine < 13 then
              playing_engine\<lparr>playbackState := Loading, nextStartTime := 0,
                 effects := effects playing_engine @ [Dispatch (PlaybackStateChanged Loading)]\<rparr>
            else
              playing_engine\<lparr>nextStartTime := nextStartTime playing_engine + duration (silence 48000),
                 effects := effects playing_engine
                   @ [SourceStart (outputNode playing_engine) (silence 48000)
                        (nextStartTime playing_engine)]\<rparr>)"
    and st: "started (schedule_all three_chunks loading_engine) = started loading_engine @ news"
    and len: "length news = length three_chunks"
    and nth: "\<forall>k < length three_chunks.
        news ! k = (snd (three_chunks ! k),
          2 + sum_list (map (\<lambda>c. duration (snd c)) (take k three_chunks)))"
    and cur: "nextStartTime (schedule_all three_chunks loading_engine) =
        2 + sum_list (map (\<lambda>c. duration (snd c)) three_chunks)"
    by blast
  from len have l3: "length news = 3" by (simp add: three_chunks_def)
  from nth have "news ! 0 = (silence 48000, 2)" "news ! 1 = (silence 24000, 3)"
    "news ! 2 = (silence 48000, 7 / 2)"
    by (simp_all add: three_chunks_def duration_silence)
  with list3 [OF l3] have news: "news = [(silence 48000, 2), (silence 24000, 3), (silence 48000, 7 / 2)]"
    by simp
  have a: "started (schedule_all three_chunks loading_engine) =
      [(silence 48000, 2), (silence 24000, 3), (silence 48000, 7 / 2)]"
    using st news by (simp add: started_def loading_engine_def initial_def)
  have b: "nextStartTime (schedule_all three_chunks loading_engine) = 9 / 2"
    using cur by (simp add: three_chunks_def duration_silence)
  have c: "schedule 13 (silence 48000) playing_engine =
       playing_engine\<lparr>playbackState := Loading, nextStartTime := 0,
         effects := [Dispatch (PlaybackStateChanged Loading)]\<rparr>"
    using sch by (simp add: playing_engine_def initial_def)
  have u: "fst (three_chunks ! 0) \<le> 2"
    "fst (three_chunks ! 1) \<le> 2 + duration (silence 48000)"
    "fst (three_chunks ! 2) \<le> 2 + duration (silence 48000) + duration (silence 24000)"
    by (simp_all add: three_chunks_def duration_silence)
  from fresh nonempty clock u a b c show ?thesis by blast
qed

lemma int16_view_ex: "int16_view [0, 64, 0, 192] = [16384, - 16384]"
  by (simp add: int16_le_def)

lemma upt2: "[0..<2] = [0, Suc 0]"
  by (simp add: upt_rec numeral_2_eq_2)

lemma rep2: "replicate 2 x = [x, x]"
  by (simp add: numeral_2_eq_2)

lemma decode_one_frame:
  "decodeAudioData [0, 64, 0, 192] conformant_host 48000 2 = Inr one_frame_buffer"
  unfolding decodeAudioData_def Let_def createBuffer_def fillChannel_def int16_view_ex
  by (simp add: upt2 rep2 normalise_def typed_get_def one_frame_buffer_def conformant_stereo)

lemma host_of_engines:
  "audioContext initial = conformant_host" "audioContext paused_engine = conformant_host"
  "audioContext playing_engine = conformant_host" "audioContext loading_engine = conformant_host"
  by (simp_all add: initial_def paused_engine_def playing_engine_def loading_engine_def)








lemma duration_one_frame: "duration one_frame_buffer = 1 / 48000"
  by (simp add: duration_def one_frame_buffer_def)


lemmas live_defs =
  setWeightedPrompts_def activePrompts_def play_enter_def getSession_def setPlaybackState_def
  emit_live_def play_complete_def play_catch_def onmessage_def processAudioChunks_def
  schedule_cases stop_result pause_result timer_fires_def Let_def wire_def bufferTime_def

text \<open>
  Claim C2 fails as stated. In the run \<open>stale_timer_run\<close> the engine is started, the
  first chunk arrives in state \<open>loading\<close> and arms the buffer-horizon timer, and \<open>stop\<close>
  is called before the timer fires: the state is \<open>stopped\<close> with the timer still
  pending. When the timer fires, the state goes from \<open>stopped\<close> to \<open>playing\<close>.
\<close>

theorem stale_timer_resurrects_playing:
  "timers (run (take 3 stale_timer_run) initial) = 0
   \<and> playbackState (run (take 3 stale_timer_run) initial) = Loading
   \<and> timers (run (take 4 stale_timer_run) initial) = 1
   \<and> playbackState (run (take 5 stale_timer_run) initial) = Stopped
   \<and> timers (run (take 5 stale_timer_run) initial) = 1
   \<and> playbackState (run stale_timer_run initial) = Playing"
  by (simp add: stale_timer_run_def initial_def joy_def chunk_message_def one_frame_def
      decode_one_frame live_defs)

lemma pause_fields: "playbackState (pause now s) = Paused" "timers (pause now s) = timers s"
  by (simp_all add: pause_result)

lemma stop_fields: "playbackState (stop now s) = Stopped" "timers (stop now s) = timers s"
  by (simp_all add: stop_result)

lemma play_enter_fields:
  "playbackState (snd (play_enter thr s)) = Loading"
  "timers (snd (play_enter thr s)) = timers s"
  by (simp_all add: play_enter_def getSession_def setPlaybackState_def emit_live_def Let_def
      split: option.split)

lemma setWeightedPrompts_fields:
  "playbackState (setWeightedPrompts now reject ps s) = Paused
   \<or> playbackState (setWeightedPrompts now reject ps s) = playbackState s"
  "timers (setWeightedPrompts now reject ps s) = timers s"
  by (simp_all add: setWeightedPrompts_def Let_def pause_fields emit_live_def
      split: option.split)

lemma play_catch_fields:
  "playbackState (play_catch msg s) = Stopped" "timers (play_catch msg s) = timers s"
  by (simp_all add: play_catch_def setPlaybackState_def emit_live_def)

lemma play_complete_fields:
  "playbackState (play_complete now settle reject s) \<noteq> Playing \<or> playbackState s = Playing"
  "timers (play_complete now settle reject s) = timers s"
proof -
  show "timers (play_complete now settle reject s) = timers s"
    by (simp add: play_complete_def Let_def play_catch_fields emit_live_def
        setWeightedPrompts_fields split: sum.split option.split)
  show "playbackState (play_complete now settle reject s) \<noteq> Playing \<or> playbackState s = Playing"
  proof (cases settle)
    case (Inl msg)
    then show ?thesis by (simp add: play_complete_def play_catch_fields)
  next
    case (Inr h)
    let ?s2 = "setWeightedPrompts now reject (promptMap (s\<lparr>session := Some h\<rparr>)) (s\<lparr>session := Some h\<rparr>)"
    have "playbackState ?s2 = Paused \<or> playbackState ?s2 = playbackState s"
      using setWeightedPrompts_fields(1) [of now reject _ "s\<lparr>session := Some h\<rparr>"] by simp
    then show ?thesis
      by (auto simp: Inr play_complete_def Let_def play_catch_fields emit_live_def
          split: option.split)
  qed
qed

lemma schedule_fields:
  "playbackState (schedule now b s) = Loading \<or> playbackState (schedule now b s) = playbackState s"
  "timers (schedule now b s) = (if nextStartTime s = 0 then timers s + 1 else timers s)"
  by (simp_all add: schedule_cases)

lemma processAudioChunks_cases:
  assumes "processAudioChunks now cs s = Inr s'"
  shows "s' = s \<or> (playbackState s \<noteq> Paused \<and> playbackState s \<noteq> Stopped
                    \<and> (\<exists>b. s' = schedule now b s))"
proof (cases "playbackState s = Paused \<or> playbackState s = Stopped")
  case True
  with assms show ?thesis by (simp add: processAudioChunks_def)
next
  case False
  with assms show ?thesis
    by (auto simp: processAudioChunks_def split: list.splits option.splits sum.splits)
qed

lemma onmessage_cases:
  "\<exists>s2. playbackState s2 = playbackState s \<and> timers s2 = timers s
     \<and> (snd (onmessage now e s) = s2
         \<or> (playbackState s2 \<noteq> Paused \<and> playbackState s2 \<noteq> Stopped
             \<and> (\<exists>b. snd (onmessage now e s) = schedule now b s2)))"
proof -
  define s1 where "s1 = (if setupComplete e then s\<lparr>connectionError := False\<rparr> else s)"
  define s2 where "s2 = (case filteredPrompt e of None \<Rightarrow> s1
      | Some t \<Rightarrow> emit_live [Dispatch (FilteredPromptEvent t)]
          (s1\<lparr>filteredPrompts := insert t (filteredPrompts s1)\<rparr>))"
  have f: "playbackState s2 = playbackState s" "timers s2 = timers s"
    by (simp_all add: s1_def s2_def emit_live_def split: option.split)
  have om: "onmessage now e s =
      (case audioChunks e of None \<Rightarrow> (None, s2)
       | Some cs \<Rightarrow> (case processAudioChunks now cs s2 of
            Inl err \<Rightarrow> (Some err, s2) | Inr s3 \<Rightarrow> (None, s3)))"
    unfolding onmessage_def Let_def s1_def s2_def ..
  have "snd (onmessage now e s) = s2
      \<or> (playbackState s2 \<noteq> Paused \<and> playbackState s2 \<noteq> Stopped
          \<and> (\<exists>b. snd (onmessage now e s) = schedule now b s2))"
  proof (cases "audioChunks e")
    case None
    then show ?thesis by (simp add: om)
  next
    case (Some cs)
    show ?thesis
    proof (cases "processAudioChunks now cs s2")
      case (Inl err)
      with Some show ?thesis by (simp add: om)
    next
      case (Inr s3)
      from processAudioChunks_cases [OF Inr] Some Inr show ?thesis
        by (auto simp: om)
    qed
  qed
  with f show ?thesis by blast
qed

lemma onmessage_fields:
  "playbackState (snd (onmessage now e s)) = Loading
   \<or> playbackState (snd (onmessage now e s)) = playbackState s"
  "timers s < timers (snd (onmessage now e s)) \<Longrightarrow>
     playbackState s = Loading \<or> playbackState s = Playing"
proof -
  from onmessage_cases [of s now e] obtain s2 where
    f: "playbackState s2 = playbackState s" "timers s2 = timers s"
    and c: "snd (onmessage now e s) = s2
      \<or> (playbackState s2 \<noteq> Paused \<and> playbackState s2 \<noteq> Stopped
          \<and> (\<exists>b. snd (onmessage now e s) = schedule now b s2))"
    by blast
  from c show "playbackState (snd (onmessage now e s)) = Loading
      \<or> playbackState (snd (onmessage now e s)) = playbackState s"
  proof
    assume "snd (onmessage now e s) = s2"
    with f show ?thesis by simp
  next
    assume "playbackState s2 \<noteq> Paused \<and> playbackState s2 \<noteq> Stopped
        \<and> (\<exists>b. snd (onmessage now e s) = schedule now b s2)"
    then obtain b where "snd (onmessage now e s) = schedule now b s2" by blast
    with schedule_fields(1) [of now b s2] f show ?thesis by simp
  qed
  assume more: "timers s < timers (snd (onmessage now e s))"
  from c show "playbackState s = Loading \<or> playbackState s = Playing"
  proof
    assume "snd (onmessage now e s) = s2"
    with more f show ?thesis by simp
  next
    assume "playbackState s2 \<noteq> Paused \<and> playbackState s2 \<noteq> Stopped
        \<and> (\<exists>b. snd (onmessage now e s) = schedule now b s2)"
    then have "playbackState s \<noteq> Paused" "playbackState s \<noteq> Stopped"
      using f by simp_all
    then show ?thesis by (cases "playbackState s") simp_all
  qed
qed

lemma onerror_fields:
  "playbackState (onerror now msg s) = Stopped" "timers (onerror now msg s) = timers s"
  "playbackState (onclose now ev s) = Stopped" "timers (onclose now ev s) = timers s"
  by (simp_all add: onerror_def onclose_def emit_live_def stop_fields)

lemma playPause_fields:
  "playbackState (playPause now thr s) \<noteq> Playing" "timers (playPause now thr s) = timers s"
  by (simp_all add: playPause_def pause_fields stop_fields play_enter_fields
      split: PlaybackState.split)

lemma step_not_playing:
  "i \<noteq> TimerFires \<Longrightarrow> playbackState (step now i s) = Playing \<Longrightarrow> playbackState s = Playing"
proof (cases i)
  case (CallSetWeightedPrompts ps reject)
  then show "playbackState (step now i s) = Playing \<Longrightarrow> playbackState s = Playing"
    using setWeightedPrompts_fields(1) [of now reject ps s] by auto
next
  case (PlayComplete settle reject)
  then show "playbackState (step now i s) = Playing \<Longrightarrow> playbackState s = Playing"
    using play_complete_fields(1) [of now settle reject s] by auto
next
  case (ServerMessage e)
  then show "playbackState (step now i s) = Playing \<Longrightarrow> playbackState s = Playing"
    using onmessage_fields(1) [of now e s] by auto
qed (simp_all add: play_enter_fields pause_fields stop_fields playPause_fields onerror_fields)

lemma step_arms_timer:
  "timers s < timers (step now i s) \<Longrightarrow> playbackState s = Loading \<or> playbackState s = Playing"
proof (cases i)
  case (ServerMessage e)
  then show "timers s < timers (step now i s) \<Longrightarrow>
      playbackState s = Loading \<or> playbackState s = Playing"
    using onmessage_fields(2) [of s now e] by simp
next
  case TimerFires
  then show "timers s < timers (step now i s) \<Longrightarrow>
      playbackState s = Loading \<or> playbackState s = Playing"
    by (simp add: timer_fires_def setPlaybackState_def emit_live_def split: if_splits)
qed (simp_all add: play_enter_fields pause_fields stop_fields playPause_fields onerror_fields
    setWeightedPrompts_fields play_complete_fields)

text \<open>
  Claim C2, amended. \<open>play\<close> first enters \<open>loading\<close>, from every state, and does not
  itself reach \<open>playing\<close>; \<open>stop\<close> in any state ends in \<open>stopped\<close> and leaves the
  pending timers pending. No command, message or session callback moves the state to
  \<open>playing\<close>: only the firing of a buffer-horizon timer does, and it does so whatever
  the state is then. Such a timer is armed only while the state is \<open>loading\<close> or
  \<open>playing\<close>.
\<close>

theorem playback_state_machine:
  "playbackState (snd (play_enter thr s)) = Loading
   \<and> playbackState (play now thr settle reject s) \<noteq> Playing
   \<and> playbackState (stop now s) = Stopped
   \<and> timers (stop now s) = timers s
   \<and> (i \<noteq> TimerFires \<longrightarrow> playbackState (step now i s) = Playing \<longrightarrow> playbackState s = Playing)
   \<and> (timers s < timers (step now i s) \<longrightarrow> playbackState s = Loading \<or> playbackState s = Playing)
   \<and> (0 < timers s \<longrightarrow> playbackState (step now TimerFires s) = Playing)"
proof -
  have "playbackState (play now thr settle reject s) \<noteq> Playing"
    using play_complete_fields(1) [of now settle reject "snd (play_enter thr s)"]
    by (simp add: play_def play_enter_fields)
  moreover have "0 < timers s \<longrightarrow> playbackState (step now TimerFires s) = Playing"
    by (simp add: timer_fires_def setPlaybackState_def emit_live_def)
  ultimately show ?thesis
    using step_not_playing [of i now s] step_arms_timer [of s now i]
    by (simp add: play_enter_fields stop_fields)
qed

text \<open>
  The theorem at the engine the constructor leaves, at a loading and a playing engine
  that receive a chunk, and at the stopped engine with a pending timer of the run above.
\<close>

theorem playback_state_machine_witness:
  "playbackState (snd (play_enter None initial)) = Loading
   \<and> playbackState (stop 3 loading_engine) = Stopped
   \<and> ServerMessage (chunk_message [one_frame]) \<noteq> TimerFires
   \<and> playbackState (step 2 (ServerMessage (chunk_message [one_frame])) playing_engine) = Playing
   \<and> playbackState playing_engine = Playing
   \<and> timers loading_engine < timers (step 2 (ServerMessage (chunk_message [one_frame])) loading_engine)
   \<and> playbackState loading_engine = Loading
   \<and> 0 < timers (run (take 5 stale_timer_run) initial)
   \<and> playbackState (step 4 TimerFires (run (take 5 stale_timer_run) initial)) = Playing"
proof -
  let ?m = "ServerMessage (chunk_message [one_frame])"
  let ?stopped = "run (take 5 stale_timer_run) initial"
  have a: "?m \<noteq> TimerFires" by simp
  have b: "playbackState (step 2 ?m playing_engine) = Playing"
    by (simp add: chunk_message_def one_frame_def host_of_engines decode_one_frame live_defs)
      (simp add: playing_engine_def initial_def)
  have c: "timers loading_engine < timers (step 2 ?m loading_engine)"
    by (simp add: chunk_message_def one_frame_def host_of_engines decode_one_frame live_defs)
      (simp add: loading_engine_def initial_def)
  have d: "0 < timers ?stopped"
    by (simp add: stale_timer_run_def initial_def joy_def chunk_message_def one_frame_def
        decode_one_frame live_defs)
  have l: "playbackState loading_engine = Loading"
    by (simp add: loading_engine_def initial_def)
  from playback_state_machine [of None initial 3 "Inr 7" None ?m]
  have e: "playbackState (snd (play_enter None initial)) = Loading" by blast
  from playback_state_machine [of None loading_engine 3 "Inr 7" None ?m]
  have f: "playbackState (stop 3 loading_engine) = Stopped" by blast
  from playback_state_machine [of None playing_engine 2 "Inr 7" None ?m] a b
  have g: "playbackState playing_engine = Playing" by blast
  from playback_state_machine [of None ?stopped 4 "Inr 7" None TimerFires] d
  have h: "playbackState (step 4 TimerFires ?stopped) = Playing" by blast
  from a b c d e f g h l show ?thesis by blast
qed

end
